theory Spec2Isabelle
  imports Main
begin

section \<open>Python values\<close>

text \<open>
  The values that reach the schema layer are the ones an RPC call can carry: \<open>None\<close>,
  booleans, integers, strings, lists, tuples and dictionaries with string keys.
  A dictionary keeps its insertion order, so it is an association list (with distinct
  keys). A string is a HOL string, each character standing for the code point of its
  number (0 to 255, Latin-1); strings with a code point above 255 are outside the
  model. Floats and user objects are not part of the model, and values are held by value
  (no object identity).
\<close>

datatype pyval =
    PNone
  | PBool bool
  | PInt int
  | PStr string
  | PList "pyval list"
  | PTuple "pyval list"
  | PDict "(string \<times> pyval) list"

text \<open>\<open>isinstance(value, int)\<close> holds for booleans too: \<open>bool\<close> is a subclass of \<open>int\<close>.\<close>

fun isinstance_int :: "pyval \<Rightarrow> bool" where
  "isinstance_int (PInt _) = True"
| "isinstance_int (PBool _) = True"
| "isinstance_int _ = False"

fun isinstance_bool :: "pyval \<Rightarrow> bool" where
  "isinstance_bool (PBool _) = True"
| "isinstance_bool _ = False"

fun isinstance_str :: "pyval \<Rightarrow> bool" where
  "isinstance_str (PStr _) = True"
| "isinstance_str _ = False"

fun isinstance_list :: "pyval \<Rightarrow> bool" where
  "isinstance_list (PList _) = True"
| "isinstance_list _ = False"

fun isinstance_dict :: "pyval \<Rightarrow> bool" where
  "isinstance_dict (PDict _) = True"
| "isinstance_dict _ = False"

text \<open>Truthiness, as \<open>if value:\<close> reads it.\<close>

fun truthy :: "pyval \<Rightarrow> bool" where
  "truthy PNone = False"
| "truthy (PBool b) = b"
| "truthy (PInt i) = (i \<noteq> 0)"
| "truthy (PStr s) = (s \<noteq> [])"
| "truthy (PList xs) = (xs \<noteq> [])"
| "truthy (PTuple xs) = (xs \<noteq> [])"
| "truthy (PDict kvs) = (kvs \<noteq> [])"

text \<open>
  Python's \<open>==\<close> on these values: a boolean equals the integer 0 or 1, sequences are
  compared element by element, dictionaries as mappings (whatever the order).
\<close>

fun int_of_bool :: "bool \<Rightarrow> int" where
  "int_of_bool True = 1"
| "int_of_bool False = 0"

fun py_eq :: "pyval \<Rightarrow> pyval \<Rightarrow> bool" where
  "py_eq PNone PNone = True"
| "py_eq (PBool a) (PBool b) = (a = b)"
| "py_eq (PBool a) (PInt j) = (int_of_bool a = j)"
| "py_eq (PInt i) (PBool b) = (i = int_of_bool b)"
| "py_eq (PInt i) (PInt j) = (i = j)"
| "py_eq (PStr s) (PStr t) = (s = t)"
| "py_eq (PList xs) (PList ys) = list_all2 py_eq xs ys"
| "py_eq (PTuple xs) (PTuple ys) = list_all2 py_eq xs ys"
| "py_eq (PDict xs) (PDict ys) =
     (length xs = length ys \<and>
      list_all (\<lambda>(k, v). list_ex (\<lambda>(k', v'). k = k' \<and> py_eq v v') ys) xs)"
| "py_eq _ _ = False"

text \<open>\<open>v in container\<close> for a list.\<close>

definition py_in :: "pyval \<Rightarrow> pyval list \<Rightarrow> bool" where
  "py_in v xs = list_ex (py_eq v) xs"

subsection \<open>Formatting\<close>

text \<open>\<open>str\<close> of an integer: decimal digits, a minus sign for a negative one.\<close>

definition digit_char :: "nat \<Rightarrow> char" where
  "digit_char d = ''0123456789'' ! d"

fun str_nat :: "nat \<Rightarrow> string" where
  "str_nat n = (if n < 10 then [digit_char n] else str_nat (n div 10) @ [digit_char (n mod 10)])"

declare str_nat.simps [simp del]

definition str_int :: "int \<Rightarrow> string" where
  "str_int i = (if i < 0 then CHR ''-'' # str_nat (nat (- i)) else str_nat (nat i))"

text \<open>
  \<open>repr\<close> of a string: single quotes unless the string has a single quote and no
  double quote; backslash, the quote in use and the characters that are not printable
  (the control characters, the no-break space and the soft hyphen) are escaped.
\<close>

definition hex_char :: "nat \<Rightarrow> char" where
  "hex_char d = ''0123456789abcdef'' ! d"

definition repr_char :: "char \<Rightarrow> char \<Rightarrow> string" where
  "repr_char q c =
     (if c = CHR 0x5C then [CHR 0x5C, CHR 0x5C]
      else if c = q then [CHR 0x5C, q]
      else if c = CHR 0x0A then [CHR 0x5C, CHR ''n'']
      else if c = CHR 0x0D then [CHR 0x5C, CHR ''r'']
      else if c = CHR 0x09 then [CHR 0x5C, CHR ''t'']
      else if (of_char c :: nat) < 32 \<or> (127 \<le> (of_char c :: nat) \<and> (of_char c :: nat) \<le> 160)
              \<or> (of_char c :: nat) = 173
        then [CHR 0x5C, CHR ''x'', hex_char (of_char c div 16), hex_char (of_char c mod 16)]
      else [c])"

definition repr_str :: "string \<Rightarrow> string" where
  "repr_str s =
     (let q = (if CHR 0x27 \<in> set s \<and> CHR 0x22 \<notin> set s then CHR 0x22 else CHR 0x27)
      in q # concat (map (repr_char q) s) @ [q])"

fun join :: "string \<Rightarrow> string list \<Rightarrow> string" where
  "join sep [] = []"
| "join sep [x] = x"
| "join sep (x # y # ys) = x @ sep @ join sep (y # ys)"

fun py_repr :: "pyval \<Rightarrow> string" where
  "py_repr PNone = ''None''"
| "py_repr (PBool b) = (if b then ''True'' else ''False'')"
| "py_repr (PInt i) = str_int i"
| "py_repr (PStr s) = repr_str s"
| "py_repr (PList xs) = ''['' @ join '', '' (map py_repr xs) @ '']''"
| "py_repr (PTuple xs) =
     (case xs of
        [x] \<Rightarrow> ''('' @ py_repr x @ '',)''
      | _ \<Rightarrow> ''('' @ join '', '' (map py_repr xs) @ '')'')"
| "py_repr (PDict kvs) =
     ''{'' @ join '', '' (map (\<lambda>(k, v). repr_str k @ '': '' @ py_repr v) kvs) @ ''}''"

text \<open>\<open>'{0}'.format(value)\<close> is \<open>str(value)\<close>: a string stands for itself.\<close>

fun py_str :: "pyval \<Rightarrow> string" where
  "py_str (PStr s) = s"
| "py_str v = py_repr v"

section \<open>The error model\<close>

text \<open>
  \<open>class Error(Exception)\<close>: one violation on one named field, with an errno that
  defaults to \<open>errno.EINVAL\<close>. \<open>__str__\<close> gives \<open>[attribute] errmsg\<close>.
\<close>

datatype Error = Error (attribute: string) (errmsg: string) (errno: int)

definition EINVAL :: int where "EINVAL = 22"
definition ENOENT :: int where "ENOENT = 2"
definition ENOTDIR :: int where "ENOTDIR = 20"
definition EISDIR :: int where "EISDIR = 21"

definition Error_str :: "Error \<Rightarrow> string" where
  "Error_str e = ''['' @ attribute e @ ''] '' @ errmsg e"

section \<open>Attributes\<close>

text \<open>
  An attribute object is its class and its instance fields. The fields that
  \<open>Attribute.__init__\<close>, \<open>EnumMixin.__init__\<close>, \<open>List.__init__\<close> and \<open>Dict.__init__\<close> set
  are gathered in one record; a class that does not use a field ignores it.
  \<open>items\<close> (of a \<open>List\<close>) and \<open>attrs\<close> (of a \<open>Dict\<close>, keyed by name, in insertion order)
  hold the nested attributes. The class \<open>Int\<close> is written \<open>Int'\<close> (\<open>Int\<close> is HOL's
  intersection).

  A validator is a callable that returns or raises \<open>ShouldBe(what)\<close>; it is read as a
  function giving \<open>Some what\<close> when it raises.
\<close>

datatype cls = Any | Str | Dir | File | IPAddr | Bool | Int' | List | Dict

type_synonym validator = "pyval \<Rightarrow> string option"

record fields =
  name :: string
  has_default :: bool
  default :: pyval
  required :: bool
  verbose :: string
  validators :: "validator list"
  register :: bool
  enum :: "pyval list option"
  additional_attrs :: bool
  update :: bool

datatype attribute =
  Attribute (cls: cls) (fields: fields) (items: "attribute list") (attrs: "(string \<times> attribute) list")

subsection \<open>ValidationErrors\<close>

text \<open>
  Modelled from the spec: \<open>ValidationErrors\<close> (imported from
  \<open>middlewared.service_exception\<close>, which is not among the sources). An ordered,
  mergeable collection of violations, each an attribute path, a message and an errno:
  \<open>add\<close> appends one violation, \<open>add_child(prefix, other)\<close> appends the violations of
  \<open>other\<close> with \<open>prefix.\<close> put before each attribute path, \<open>extend(other)\<close> appends them
  as they are, and the collection is true when it is not empty.
\<close>

type_synonym ValidationErrors = "Error list"

definition add :: "ValidationErrors \<Rightarrow> string \<Rightarrow> string \<Rightarrow> int \<Rightarrow> ValidationErrors" where
  "add verrors attr msg code = verrors @ [Error attr msg code]"

definition add_child :: "ValidationErrors \<Rightarrow> string \<Rightarrow> ValidationErrors \<Rightarrow> ValidationErrors" where
  "add_child verrors prefix child =
     verrors @ map (\<lambda>e. Error (prefix @ ''.'' @ attribute e) (errmsg e) (errno e)) child"

definition extend :: "ValidationErrors \<Rightarrow> ValidationErrors \<Rightarrow> ValidationErrors" where
  "extend verrors other = verrors @ other"

subsection \<open>Exceptions\<close>

text \<open>
  What a call can raise: the module's \<open>Error\<close> and \<open>ResolverError\<close>, \<open>ValidationErrors\<close>,
  and the built-in exceptions of the operations the code performs.
\<close>

datatype exc =
    ErrorExc Error
  | ValidationErrorsExc ValidationErrors
  | ResolverError string
  | ValueError string
  | TypeError
  | IndexError
  | KeyError string
  | AssertionError

subsection \<open>Digit strings\<close>

text \<open>
  \<open>str.isdigit\<close>: at least one character, every one a digit. Below 256 the digits are
  \<open>0\<close> to \<open>9\<close> and the superscripts two, three and one (U+00B2, U+00B3, U+00B9).
  \<open>int(s)\<close> reads only the decimal digits \<open>0\<close> to \<open>9\<close>, in base ten, and raises
  \<open>ValueError\<close> on a superscript; \<open>py_int\<close> is \<open>int\<close> on the strings that pass \<open>isdigit\<close>,
  the only ones it is called on.
\<close>

definition is_decimal :: "char \<Rightarrow> bool" where
  "is_decimal c = ((of_char CHR ''0'' :: nat) \<le> of_char c \<and> (of_char c :: nat) \<le> of_char CHR ''9'')"

definition is_digit :: "char \<Rightarrow> bool" where
  "is_digit c = (is_decimal c \<or> c = CHR 0xB2 \<or> c = CHR 0xB3 \<or> c = CHR 0xB9)"

definition isdigit :: "string \<Rightarrow> bool" where
  "isdigit s = (s \<noteq> [] \<and> list_all is_digit s)"

definition digit_val :: "char \<Rightarrow> int" where
  "digit_val c = int (of_char c) - int (of_char CHR ''0'')"

definition int_of_str :: "string \<Rightarrow> int" where
  "int_of_str s = foldl (\<lambda>acc c. acc * 10 + digit_val c) 0 s"

definition py_int :: "string \<Rightarrow> exc + int" where
  "py_int s =
     (if list_all is_decimal s then Inr (int_of_str s)
      else Inl (ValueError (''invalid literal for int() with base 10: '' @ repr_str s)))"

subsection \<open>Dictionaries\<close>

definition keys :: "(string \<times> 'a) list \<Rightarrow> string set" where
  "keys d = fst ` set d"

text \<open>\<open>d[k] = v\<close>: an existing key keeps its place, a new key goes last.\<close>

fun dict_set :: "(string \<times> 'a) list \<Rightarrow> string \<Rightarrow> 'a \<Rightarrow> (string \<times> 'a) list" where
  "dict_set [] k v = [(k, v)]"
| "dict_set ((k', v') # d) k v = (if k' = k then (k, v) # d else (k', v') # dict_set d k v)"

subsection \<open>clean\<close>

text \<open>
  \<open>clean\<close> returns the cleaned value or raises: an \<open>Error\<close> as a rule, and the
  \<open>ValueError\<close> of \<open>int\<close> in \<open>Int.clean\<close>.

  \<open>Attribute.clean\<close> returns the value as it is.
\<close>

definition Attribute_clean :: "fields \<Rightarrow> pyval \<Rightarrow> exc + pyval" where
  "Attribute_clean f v = Inr v"

text \<open>
  \<open>EnumMixin.clean\<close>: with an enum, the value (or each element of a list or tuple) must
  be \<open>in self.enum\<close>.
\<close>

definition EnumMixin_clean :: "fields \<Rightarrow> pyval \<Rightarrow> exc + pyval" where
  "EnumMixin_clean f v =
     (case enum f of
        None \<Rightarrow> Inr v
      | Some en \<Rightarrow>
          let tmp = (case v of PList xs \<Rightarrow> xs | PTuple xs \<Rightarrow> xs | _ \<Rightarrow> [v])
          in if list_all (\<lambda>x. py_in x en) tmp then Inr v
             else Inl (ErrorExc (Error (name f) (''Invalid choice: '' @ py_str v) EINVAL)))"

definition Str_clean :: "fields \<Rightarrow> pyval \<Rightarrow> exc + pyval" where
  "Str_clean f v0 =
     (case EnumMixin_clean f v0 of
        Inl e \<Rightarrow> Inl e
      | Inr v \<Rightarrow>
          if v = PNone \<and> \<not> required f then Inr (default f)
          else if \<not> isinstance_str v then Inl (ErrorExc (Error (name f) ''Not a string'' EINVAL))
          else Inr v)"

definition Bool_clean :: "fields \<Rightarrow> pyval \<Rightarrow> exc + pyval" where
  "Bool_clean f v =
     (if v = PNone \<and> \<not> required f then Inr (default f)
      else if \<not> isinstance_bool v then Inl (ErrorExc (Error (name f) ''Not a boolean'' EINVAL))
      else Inr v)"

definition Int_clean :: "fields \<Rightarrow> pyval \<Rightarrow> exc + pyval" where
  "Int_clean f v =
     (if v = PNone \<and> \<not> required f then Inr (default f)
      else if \<not> isinstance_int v then
        (case v of
           PStr s \<Rightarrow>
             if isdigit s then
               (case py_int s of
                  Inl e \<Rightarrow> Inl e
                | Inr n \<Rightarrow> Inr (PInt n))
             else Inl (ErrorExc (Error (name f) ''Not an integer'' EINVAL))
         | _ \<Rightarrow> Inl (ErrorExc (Error (name f) ''Not an integer'' EINVAL)))
      else Inr v)"

text \<open>
  The second loop of \<open>Dict.clean\<close> (skipped in \<open>update\<close> mode): over the declared
  attributes in order, a required one that is absent raises, an absent one with a
  default is filled in.
\<close>

fun Dict_clean_missing ::
  "attribute list \<Rightarrow> (string \<times> pyval) list \<Rightarrow> exc + (string \<times> pyval) list" where
  "Dict_clean_missing [] data = Inr data"
| "Dict_clean_missing (attr # rest) data =
     (if required (fields attr) \<and> name (fields attr) \<notin> keys data
        then Inl (ErrorExc (Error (name (fields attr)) ''This field is required'' EINVAL))
      else if name (fields attr) \<notin> keys data \<and> has_default (fields attr)
        then Dict_clean_missing rest (dict_set data (name (fields attr)) (default (fields attr)))
      else Dict_clean_missing rest data)"

text \<open>
  \<open>Dict.clean\<close> and \<open>List.clean\<close> work on the object they are given and return it: after
  a \<open>Dict\<close> has cleaned a dictionary, or a \<open>List\<close> a list, the object that was passed
  holds the cleaned value. Every other clean leaves its argument as it was.
  \<open>in_place i v c\<close> is the state of the object \<open>v\<close> after \<open>i.clean(v)\<close> returned \<open>c\<close>.
\<close>

definition in_place :: "attribute \<Rightarrow> pyval \<Rightarrow> pyval \<Rightarrow> pyval" where
  "in_place i v c =
     (if (cls i = Dict \<and> isinstance_dict v) \<or> (cls i = List \<and> isinstance_list v) then c else v)"

text \<open>
  \<open>clean\<close> dispatches on the class (\<open>Dir\<close>, \<open>File\<close> and \<open>IPAddr\<close> inherit \<open>Str.clean\<close>).

  \<open>List_clean_item its v cur\<close> is the inner loop of \<open>List.clean\<close> for one element: \<open>v\<close> is
  the element object as the candidates so far have left it, \<open>cur\<close> is \<open>value[index]\<close>.
  \<open>Inr (Inr cur)\<close> at the end stands for \<open>found is True\<close>, \<open>Inr (Inl e)\<close> for \<open>found = e\<close>
  after the \<open>break\<close>; an exception other than \<open>Error\<close> is not caught. \<open>List_clean_loop\<close> is
  the loop over the elements, and \<open>Dict_clean_keys\<close> the first loop of \<open>Dict.clean\<close>, over
  a snapshot of the items.
\<close>

function (sequential)
  clean :: "attribute \<Rightarrow> pyval \<Rightarrow> exc + pyval" and
  List_clean_item :: "attribute list \<Rightarrow> pyval \<Rightarrow> pyval \<Rightarrow> exc + (Error + pyval)" and
  List_clean_loop :: "string \<Rightarrow> attribute list \<Rightarrow> nat \<Rightarrow> pyval list \<Rightarrow> exc + pyval list" and
  Dict_clean_keys ::
    "bool \<Rightarrow> (string \<times> attribute) list \<Rightarrow> (string \<times> pyval) list \<Rightarrow> (string \<times> pyval) list
      \<Rightarrow> exc + (string \<times> pyval) list"
where
  "clean (Attribute c f its ats) v0 =
     (case c of
        Any \<Rightarrow> Attribute_clean f v0
      | Str \<Rightarrow> Str_clean f v0
      | Dir \<Rightarrow> Str_clean f v0
      | File \<Rightarrow> Str_clean f v0
      | IPAddr \<Rightarrow> Str_clean f v0
      | Bool \<Rightarrow> Bool_clean f v0
      | Int' \<Rightarrow> Int_clean f v0
      | List \<Rightarrow>
          (case EnumMixin_clean f v0 of
             Inl e \<Rightarrow> Inl e
           | Inr v \<Rightarrow>
               if v = PNone \<and> \<not> required f then Inr (default f)
               else (case v of
                  PList xs \<Rightarrow>
                    if its \<noteq> [] then
                      (case List_clean_loop (name f) its 0 xs of
                         Inl e \<Rightarrow> Inl e
                       | Inr ys \<Rightarrow> Inr (PList ys))
                    else Inr v
                | _ \<Rightarrow> Inl (ErrorExc (Error (name f) ''Not a list'' EINVAL))))
      | Dict \<Rightarrow>
          (let data = (if v0 = PNone \<and> \<not> required f then PDict [] else v0) in
           case data of
             PDict kvs \<Rightarrow>
               (case Dict_clean_keys (additional_attrs f) ats kvs kvs of
                  Inl e \<Rightarrow> Inl e
                | Inr d \<Rightarrow>
                    if \<not> update f then
                      (case Dict_clean_missing (map snd ats) d of
                         Inl e \<Rightarrow> Inl e
                       | Inr d' \<Rightarrow> Inr (PDict d'))
                    else Inr (PDict d))
           | _ \<Rightarrow> Inl (ErrorExc (Error (name f) ''A dict was expected'' EINVAL))))"
| "List_clean_item [] v cur = Inr (Inr cur)"
| "List_clean_item (i # its) v cur =
     (case clean i v of
        Inr c \<Rightarrow> List_clean_item its (in_place i v c) c
      | Inl (ErrorExc e) \<Rightarrow> Inr (Inl e)
      | Inl other \<Rightarrow> Inl other)"
| "List_clean_loop nm its index [] = Inr []"
| "List_clean_loop nm its index (v # vs) =
     (case List_clean_item its v v of
        Inl e \<Rightarrow> Inl e
      | Inr (Inl found) \<Rightarrow>
          Inl (ErrorExc (Error nm (''Item#'' @ str_nat index @ '' is not valid per list types: ''
                                    @ Error_str found) EINVAL))
      | Inr (Inr c) \<Rightarrow>
          (case List_clean_loop nm its (Suc index) vs of
             Inl e \<Rightarrow> Inl e
           | Inr cs \<Rightarrow> Inr (c # cs)))"
| "Dict_clean_keys additional ats [] data = Inr data"
| "Dict_clean_keys additional ats ((key, value) # rest) data =
     (if \<not> additional \<and> key \<notin> keys ats
        then Inl (ErrorExc (Error key ''Field was not expected'' EINVAL))
      else (case map_of ats key of
         None \<Rightarrow> Dict_clean_keys additional ats rest data
       | Some attr \<Rightarrow>
           (case clean attr value of
              Inl e \<Rightarrow> Inl e
            | Inr c \<Rightarrow> Dict_clean_keys additional ats rest (dict_set data key c))))"
  by pat_completeness auto

termination clean
proof -
  have sz: "map_of ats k = Some a \<Longrightarrow> size a < size_list (size_prod (\<lambda>x. 0) size) ats"
    for ats :: "(string \<times> attribute) list" and k a
    by (induction ats) (auto split: if_splits)
  show ?thesis
    by (relation "inv_image (less_than <*lex*> less_than)
      (\<lambda>x. case x of
          Inl (Inl (a, v)) \<Rightarrow> (size a, 0)
        | Inl (Inr (its, v, cur)) \<Rightarrow> (size_list size its, 0)
        | Inr (Inl (nm, its, idx, vs)) \<Rightarrow> (size_list size its, Suc (length vs))
        | Inr (Inr (ad, ats, rest, data)) \<Rightarrow>
            (size_list (size_prod (\<lambda>x. 0) size) ats, length rest))")
      (auto dest: sz)
qed

subsection \<open>Constructors\<close>

text \<open>
  \<open>Attribute.__init__(name, verbose=None, required=False, validators=None,
  register=False, **kwargs)\<close> with no keyword argument; a keyword argument is an update
  of the fields. \<open>List.__init__\<close> supplies the default \<open>[]\<close>, so a \<open>List\<close> always has a
  default. \<open>Dict.__init__\<close> stores the given attributes by name, in order (a repeated
  name keeps its first place and its last attribute).
\<close>

definition Attribute_init :: "string \<Rightarrow> fields" where
  "Attribute_init n =
     \<lparr>name = n, has_default = False, default = PNone, required = False, verbose = n,
      validators = [], register = False, enum = None, additional_attrs = False,
      update = False\<rparr>"

definition new :: "cls \<Rightarrow> string \<Rightarrow> attribute" where
  "new c n = Attribute c (Attribute_init n) [] []"

definition List_init :: "string \<Rightarrow> attribute list \<Rightarrow> attribute" where
  "List_init n its =
     Attribute List ((Attribute_init n)\<lparr>has_default := True, default := PList []\<rparr>) its []"

definition Dict_init :: "string \<Rightarrow> attribute list \<Rightarrow> attribute" where
  "Dict_init n as =
     Attribute Dict (Attribute_init n) [] (foldl (\<lambda>d i. dict_set d (name (fields i)) i) [] as)"

fun upd :: "(fields \<Rightarrow> fields) \<Rightarrow> attribute \<Rightarrow> attribute" where
  "upd g (Attribute c f its ats) = Attribute c (g f) its ats"

definition kw_required :: "bool \<Rightarrow> attribute \<Rightarrow> attribute" where
  "kw_required b = upd (\<lambda>f. f\<lparr>required := b\<rparr>)"

definition kw_default :: "pyval \<Rightarrow> attribute \<Rightarrow> attribute" where
  "kw_default d = upd (\<lambda>f. f\<lparr>has_default := True, default := d\<rparr>)"

definition kw_enum :: "pyval list \<Rightarrow> attribute \<Rightarrow> attribute" where
  "kw_enum en = upd (\<lambda>f. f\<lparr>enum := Some en\<rparr>)"

definition kw_validators :: "validator list \<Rightarrow> attribute \<Rightarrow> attribute" where
  "kw_validators vs = upd (\<lambda>f. f\<lparr>validators := vs\<rparr>)"

subsection \<open>to_json_schema\<close>

text \<open>
  The exported schema is a Python dictionary, built key by key as the source does.
  \<open>parent\<close> is only tested for truth (\<open>if not parent\<close>), so it is a boolean here: whether
  an enclosing \<open>Dict\<close> was passed.
\<close>

definition top_level :: "bool \<Rightarrow> fields \<Rightarrow> (string \<times> pyval) list \<Rightarrow> (string \<times> pyval) list" where
  "top_level parent f schema =
     (if \<not> parent
      then dict_set (dict_set schema ''title'' (PStr (verbose f))) ''_required_'' (PBool (required f))
      else schema)"

definition with_enum :: "fields \<Rightarrow> (string \<times> pyval) list \<Rightarrow> (string \<times> pyval) list" where
  "with_enum f schema =
     (case enum f of None \<Rightarrow> schema | Some en \<Rightarrow> dict_set schema ''enum'' (PList en))"

definition Any_to_json_schema :: "bool \<Rightarrow> fields \<Rightarrow> (string \<times> pyval) list" where
  "Any_to_json_schema parent f =
     (let schema =
        [(''anyOf'', PList [PDict [(''type'', PStr ''string'')],
                           PDict [(''type'', PStr ''integer'')],
                           PDict [(''type'', PStr ''boolean'')],
                           PDict [(''type'', PStr ''object'')],
                           PDict [(''type'', PStr ''array'')]]),
         (''title'', PStr (verbose f))]
      in if \<not> parent then dict_set schema ''_required_'' (PBool (required f)) else schema)"

definition Str_to_json_schema :: "bool \<Rightarrow> fields \<Rightarrow> (string \<times> pyval) list" where
  "Str_to_json_schema parent f =
     (let schema = top_level parent f [];
          schema = (if \<not> required f
                    then dict_set schema ''type'' (PList [PStr ''string'', PStr ''null''])
                    else dict_set schema ''type'' (PStr ''string''))
      in with_enum f schema)"

definition Bool_to_json_schema :: "bool \<Rightarrow> fields \<Rightarrow> (string \<times> pyval) list" where
  "Bool_to_json_schema parent f =
     top_level parent f
       [(''type'', if \<not> required f then PList [PStr ''boolean'', PStr ''null''] else PStr ''boolean'')]"

definition Int_to_json_schema :: "bool \<Rightarrow> fields \<Rightarrow> (string \<times> pyval) list" where
  "Int_to_json_schema parent f =
     top_level parent f
       [(''type'', if \<not> required f then PList [PStr ''integer'', PStr ''null''] else PStr ''integer'')]"

definition List_to_json_schema :: "bool \<Rightarrow> fields \<Rightarrow> (string \<times> pyval) list" where
  "List_to_json_schema parent f =
     (let schema = top_level parent f [(''type'', PStr ''array'')];
          schema = (if required f
                    then dict_set schema ''type'' (PList [PStr ''array'', PStr ''null''])
                    else dict_set schema ''type'' (PStr ''array''))
      in with_enum f schema)"

fun to_json_schema :: "bool \<Rightarrow> attribute \<Rightarrow> (string \<times> pyval) list" where
  "to_json_schema parent (Attribute c f its ats) =
     (case c of
        Any \<Rightarrow> Any_to_json_schema parent f
      | Str \<Rightarrow> Str_to_json_schema parent f
      | Dir \<Rightarrow> Str_to_json_schema parent f
      | File \<Rightarrow> Str_to_json_schema parent f
      | IPAddr \<Rightarrow> Str_to_json_schema parent f
      | Bool \<Rightarrow> Bool_to_json_schema parent f
      | Int' \<Rightarrow> Int_to_json_schema parent f
      | List \<Rightarrow> List_to_json_schema parent f
      | Dict \<Rightarrow>
          (let schema = top_level parent f
                 [(''type'', PStr ''object''), (''properties'', PDict []),
                  (''additionalProperties'', PBool (additional_attrs f))];
               properties =
                 foldl (\<lambda>props na. dict_set props (fst na) (PDict (to_json_schema True (snd na))))
                   [] ats
           in dict_set schema ''properties'' (PDict properties)))"

section \<open>Validation\<close>

subsection \<open>The environment\<close>

text \<open>
  The environment \<open>validate\<close> reads: the file system (\<open>os.path.exists\<close> gives \<open>None\<close>
  where it raises \<open>TypeError\<close>, on a value that is no path) and whether
  \<open>ipaddress.ip_address\<close> accepts a value (it raises \<open>ValueError\<close> otherwise).
\<close>

datatype os_env =
  Env (path_exists: "pyval \<Rightarrow> bool option")
      (path_isdir: "pyval \<Rightarrow> bool")
      (path_isfile: "pyval \<Rightarrow> bool")
      (ip_address_ok: "pyval \<Rightarrow> bool")

text \<open>\<open>if verrors: raise verrors\<close>.\<close>

definition raise_if :: "ValidationErrors \<Rightarrow> exc + unit" where
  "raise_if verrors = (if verrors \<noteq> [] then Inl (ValidationErrorsExc verrors) else Inr ())"

text \<open>\<open>Attribute.validate\<close>: every validator is run; each \<open>ShouldBe\<close> is recorded.\<close>

fun run_validators :: "string \<Rightarrow> validator list \<Rightarrow> pyval \<Rightarrow> ValidationErrors \<Rightarrow> ValidationErrors" where
  "run_validators nm [] v verrors = verrors"
| "run_validators nm (validator # rest) v verrors =
     (case validator v of
        Some what \<Rightarrow> run_validators nm rest v (add verrors nm (''Should be '' @ what) EINVAL)
      | None \<Rightarrow> run_validators nm rest v verrors)"

definition Attribute_validate :: "fields \<Rightarrow> pyval \<Rightarrow> exc + unit" where
  "Attribute_validate f v = raise_if (run_validators (name f) (validators f) v [])"

definition Dir_validate :: "os_env \<Rightarrow> fields \<Rightarrow> pyval \<Rightarrow> exc + unit" where
  "Dir_validate env f v =
     (if truthy v then
        (case path_exists env v of
           None \<Rightarrow> Inl TypeError
         | Some ex \<Rightarrow>
             (let verrors =
                (if \<not> ex then add [] (name f) ''This path does not exist.'' ENOENT
                 else if \<not> path_isdir env v
                   then add [] (name f) ''This path is not a directory.'' ENOTDIR
                 else [])
              in if verrors \<noteq> [] then Inl (ValidationErrorsExc verrors)
                 else Attribute_validate f v))
      else Attribute_validate f v)"

definition File_validate :: "os_env \<Rightarrow> fields \<Rightarrow> pyval \<Rightarrow> exc + unit" where
  "File_validate env f v =
     (if truthy v then
        (case path_exists env v of
           None \<Rightarrow> Inl TypeError
         | Some ex \<Rightarrow>
             (let verrors =
                (if \<not> ex then add [] (name f) ''This path does not exist.'' ENOENT
                 else if \<not> path_isfile env v
                   then add [] (name f) ''This path is not a file.'' EISDIR
                 else [])
              in if verrors \<noteq> [] then Inl (ValidationErrorsExc verrors)
                 else Attribute_validate f v))
      else Attribute_validate f v)"

definition IPAddr_validate :: "os_env \<Rightarrow> fields \<Rightarrow> pyval \<Rightarrow> exc + unit" where
  "IPAddr_validate env f v =
     (if truthy v \<and> \<not> ip_address_ok env v
        then Inl (ErrorExc (Error (name f) (''Not a valid IP Address: '' @ py_str v) EINVAL))
      else Attribute_validate f v)"

text \<open>
  \<open>enumerate(value)\<close> in \<open>List.validate\<close> iterates whatever it is given: the elements of
  a list or tuple, the characters of a string, the keys of a dictionary; anything else
  raises \<open>TypeError\<close>.
\<close>

fun py_iter :: "pyval \<Rightarrow> pyval list option" where
  "py_iter (PList xs) = Some xs"
| "py_iter (PTuple xs) = Some xs"
| "py_iter (PStr s) = Some (map (\<lambda>c. PStr [c]) s)"
| "py_iter (PDict kvs) = Some (map (\<lambda>kv. PStr (fst kv)) kvs)"
| "py_iter _ = None"

text \<open>
  \<open>attr.name in value\<close> followed by \<open>value[attr.name]\<close> in \<open>Dict.validate\<close>: \<open>Inr None\<close> when
  the name is not in the value, \<open>Inr (Some v)\<close> for the entry of a dictionary. On a
  string or a sequence that contains the name the subscript raises \<open>TypeError\<close>, as does
  the membership test on a value that is no container.
\<close>

fun starts_with :: "string \<Rightarrow> string \<Rightarrow> bool" where
  "starts_with s [] = True"
| "starts_with [] (c # n) = False"
| "starts_with (d # s) (c # n) = (d = c \<and> starts_with s n)"

fun str_contains :: "string \<Rightarrow> string \<Rightarrow> bool" where
  "str_contains [] n = (n = [])"
| "str_contains (d # s) n = (starts_with (d # s) n \<or> str_contains s n)"

fun name_in_value :: "string \<Rightarrow> pyval \<Rightarrow> exc + pyval option" where
  "name_in_value nm (PDict kvs) = Inr (map_of kvs nm)"
| "name_in_value nm (PStr s) = (if str_contains s nm then Inl TypeError else Inr None)"
| "name_in_value nm (PList xs) = (if py_in (PStr nm) xs then Inl TypeError else Inr None)"
| "name_in_value nm (PTuple xs) = (if py_in (PStr nm) xs then Inl TypeError else Inr None)"
| "name_in_value nm _ = Inl TypeError"

text \<open>
  \<open>validate\<close> dispatches on the class (\<open>Any\<close>, \<open>Str\<close>, \<open>Bool\<close> and \<open>Int\<close> inherit
  \<open>Attribute.validate\<close>; \<open>List\<close> and \<open>Dict\<close> do not call it). In \<open>List.validate\<close> every
  element is validated by every candidate; only \<open>ValidationErrors\<close> is caught, under the
  prefix \<open>name.index\<close> (\<open>List\<close>) or \<open>name\<close> (\<open>Dict\<close>).
\<close>

function (sequential)
  validate :: "os_env \<Rightarrow> attribute \<Rightarrow> pyval \<Rightarrow> exc + unit" and
  List_validate_item ::
    "os_env \<Rightarrow> string \<Rightarrow> attribute list \<Rightarrow> pyval \<Rightarrow> ValidationErrors \<Rightarrow> exc + ValidationErrors" and
  List_validate_loop ::
    "os_env \<Rightarrow> string \<Rightarrow> attribute list \<Rightarrow> nat \<Rightarrow> pyval list \<Rightarrow> ValidationErrors
      \<Rightarrow> exc + ValidationErrors" and
  Dict_validate_loop ::
    "os_env \<Rightarrow> string \<Rightarrow> (string \<times> attribute) list \<Rightarrow> pyval \<Rightarrow> ValidationErrors
      \<Rightarrow> exc + ValidationErrors"
where
  "validate env (Attribute c f its ats) v =
     (case c of
        Any \<Rightarrow> Attribute_validate f v
      | Str \<Rightarrow> Attribute_validate f v
      | Dir \<Rightarrow> Dir_validate env f v
      | File \<Rightarrow> File_validate env f v
      | IPAddr \<Rightarrow> IPAddr_validate env f v
      | Bool \<Rightarrow> Attribute_validate f v
      | Int' \<Rightarrow> Attribute_validate f v
      | List \<Rightarrow>
          (case py_iter v of
             None \<Rightarrow> Inl TypeError
           | Some xs \<Rightarrow>
               (case List_validate_loop env (name f) its 0 xs [] of
                  Inl e \<Rightarrow> Inl e
                | Inr verrors \<Rightarrow> raise_if verrors))
      | Dict \<Rightarrow>
          (case Dict_validate_loop env (name f) ats v [] of
             Inl e \<Rightarrow> Inl e
           | Inr verrors \<Rightarrow> raise_if verrors))"
| "List_validate_item env prefix [] v verrors = Inr verrors"
| "List_validate_item env prefix (attr # rest) v verrors =
     (case validate env attr v of
        Inr _ \<Rightarrow> List_validate_item env prefix rest v verrors
      | Inl (ValidationErrorsExc e) \<Rightarrow>
          List_validate_item env prefix rest v (add_child verrors prefix e)
      | Inl other \<Rightarrow> Inl other)"
| "List_validate_loop env nm its i [] verrors = Inr verrors"
| "List_validate_loop env nm its i (v # vs) verrors =
     (case List_validate_item env (nm @ ''.'' @ str_nat i) its v verrors of
        Inl e \<Rightarrow> Inl e
      | Inr verrors' \<Rightarrow> List_validate_loop env nm its (Suc i) vs verrors')"
| "Dict_validate_loop env nm [] v verrors = Inr verrors"
| "Dict_validate_loop env nm ((key, attr) # rest) v verrors =
     (case name_in_value (name (fields attr)) v of
        Inl e \<Rightarrow> Inl e
      | Inr None \<Rightarrow> Dict_validate_loop env nm rest v verrors
      | Inr (Some x) \<Rightarrow>
          (case validate env attr x of
             Inr _ \<Rightarrow> Dict_validate_loop env nm rest v verrors
           | Inl (ValidationErrorsExc e) \<Rightarrow>
               Dict_validate_loop env nm rest v (add_child verrors nm e)
           | Inl other \<Rightarrow> Inl other))"
  by pat_completeness auto

termination validate
  by (relation "inv_image (less_than <*lex*> less_than)
    (\<lambda>x. case x of
        Inl (Inl (env, a, v)) \<Rightarrow> (size a, 0)
      | Inl (Inr (env, prefix, its, v, verrors)) \<Rightarrow> (size_list size its, 0)
      | Inr (Inl (env, nm, its, i, vs, verrors)) \<Rightarrow> (size_list size its, Suc (length vs))
      | Inr (Inr (env, nm, ats, v, verrors)) \<Rightarrow>
          (size_list (size_prod (\<lambda>x. 0) size) ats, 0))")
    auto

section \<open>The call-binding layer\<close>

text \<open>
  What \<open>accepts\<close> reads of the wrapped function \<open>f\<close>: \<open>f.__code__.co_argcount\<close>,
  \<open>f.__code__.co_varnames\<close>, and whether \<open>f\<close> has the attributes \<open>_pass_app\<close> and \<open>_job\<close>.
\<close>

datatype callable =
  Callable (co_argcount: nat) (co_varnames: "string list") (has_pass_app: bool) (has_job: bool)

definition args_index :: "callable \<Rightarrow> nat" where
  "args_index f = 1 + (if has_pass_app f then 1 else 0) + (if has_job f then 1 else 0)"

text \<open>\<open>assert len(schema) == f.__code__.co_argcount - args_index\<close>, on Python integers.\<close>

definition accepts_assert :: "attribute list \<Rightarrow> callable \<Rightarrow> bool" where
  "accepts_assert schema f = (int (length schema) = int (co_argcount f) - int (args_index f))"

text \<open>
  The first loop of \<open>clean_and_validate_args\<close>, over \<open>args[args_index:]\<close>: \<open>acc\<close> is
  \<open>nf.accepts\<close>, \<open>i\<close> the counter. It returns the cleaned values and the violations
  collected so far. What \<open>clean\<close> raises is not caught; of what \<open>validate\<close> raises only
  \<open>ValidationErrors\<close> is.
\<close>

fun positional_loop ::
  "os_env \<Rightarrow> attribute list \<Rightarrow> nat \<Rightarrow> pyval list \<Rightarrow> ValidationErrors
    \<Rightarrow> exc + (pyval list \<times> ValidationErrors)" where
  "positional_loop env acc i [] verrors = Inr ([], verrors)"
| "positional_loop env acc i (a # rest) verrors =
     (if \<not> i < length acc then Inl IndexError
      else
        (case clean (acc ! i) a of
           Inl e \<Rightarrow> Inl e
         | Inr value \<Rightarrow>
             (case (case validate env (acc ! i) value of
                      Inr _ \<Rightarrow> Inr verrors
                    | Inl (ValidationErrorsExc e) \<Rightarrow> Inr (extend verrors e)
                    | Inl other \<Rightarrow> Inl other) of
                Inl e \<Rightarrow> Inl e
              | Inr verrors' \<Rightarrow>
                  (case positional_loop env acc (Suc i) rest verrors' of
                     Inl e \<Rightarrow> Inl e
                   | Inr (values, verrors'') \<Rightarrow> Inr (value # values, verrors'')))))"

text \<open>
  The second loop, over \<open>range(i + 1, f.__code__.co_argcount)\<close>: \<open>xs\<close> is what is left of
  the range, \<open>i\<close> the counter, \<open>kwargs\<close> the keyword arguments as updated so far.
\<close>

fun keyword_loop ::
  "os_env \<Rightarrow> callable \<Rightarrow> attribute list \<Rightarrow> nat list \<Rightarrow> nat \<Rightarrow> (string \<times> pyval) list
    \<Rightarrow> ValidationErrors \<Rightarrow> exc + ((string \<times> pyval) list \<times> ValidationErrors)" where
  "keyword_loop env f acc [] i kwargs verrors = Inr (kwargs, verrors)"
| "keyword_loop env f acc (x # xs) i kwargs verrors =
     (if \<not> x < length (co_varnames f) then Inl IndexError
      else
        (let kwarg = co_varnames f ! x;
             bound =
               (case map_of kwargs kwarg of
                  Some value \<Rightarrow>
                    if \<not> i < length acc then Inl IndexError else Inr (Some (acc ! i, value))
                | None \<Rightarrow>
                    if length acc \<ge> i + args_index f
                    then (if \<not> i < length acc then Inl IndexError
                          else Inr (Some (acc ! i, PNone)))
                    else Inr None)
         in case bound of
              Inl e \<Rightarrow> Inl e
            | Inr None \<Rightarrow> keyword_loop env f acc xs (Suc i) kwargs verrors
            | Inr (Some (attr, value0)) \<Rightarrow>
                (case clean attr value0 of
                   Inl e \<Rightarrow> Inl e
                 | Inr value \<Rightarrow>
                     (case (case validate env attr value of
                              Inr _ \<Rightarrow> Inr verrors
                            | Inl (ValidationErrorsExc e) \<Rightarrow> Inr (extend verrors e)
                            | Inl other \<Rightarrow> Inl other) of
                        Inl e \<Rightarrow> Inl e
                      | Inr verrors' \<Rightarrow>
                          keyword_loop env f acc xs (Suc i) (dict_set kwargs kwarg value)
                            verrors'))))"

text \<open>
  \<open>clean_and_validate_args(args, kwargs)\<close>. The deep copies it starts with change nothing
  here, values having no identity.
\<close>

definition clean_and_validate_args ::
  "os_env \<Rightarrow> callable \<Rightarrow> attribute list \<Rightarrow> pyval list \<Rightarrow> (string \<times> pyval) list
    \<Rightarrow> exc + (pyval list \<times> (string \<times> pyval) list)" where
  "clean_and_validate_args env f acc args kwargs =
     (case positional_loop env acc 0 (drop (args_index f) args) [] of
        Inl e \<Rightarrow> Inl e
      | Inr (values, verrors) \<Rightarrow>
          (let i = length values;
               args' = take (args_index f) args @ values
           in case keyword_loop env f acc [i + 1 ..< co_argcount f] i kwargs verrors of
                Inl e \<Rightarrow> Inl e
              | Inr (kwargs', verrors') \<Rightarrow>
                  if verrors' \<noteq> [] then Inl (ValidationErrorsExc verrors')
                  else Inr (args', kwargs')))"

text \<open>
  The wrapper \<open>nf\<close>. The body of \<open>f\<close> is a state transformer (the state stands for
  whatever the handler touches, a call counter for one): it runs only on what
  \<open>clean_and_validate_args\<close> returns.
\<close>

definition nf ::
  "os_env \<Rightarrow> callable \<Rightarrow> attribute list
    \<Rightarrow> (pyval list \<Rightarrow> (string \<times> pyval) list \<Rightarrow> 's \<Rightarrow> (exc + 'r) \<times> 's)
    \<Rightarrow> pyval list \<Rightarrow> (string \<times> pyval) list \<Rightarrow> 's \<Rightarrow> (exc + 'r) \<times> 's" where
  "nf env f acc body args kwargs s =
     (case clean_and_validate_args env f acc args kwargs of
        Inl e \<Rightarrow> (Inl e, s)
      | Inr (args', kwargs') \<Rightarrow> body args' kwargs' s)"

section \<open>Reference meanings\<close>

text \<open>
  The integer a digit string denotes, position by position; \<open>int_of_str\<close> is compared
  with it below.
\<close>

definition dec_value :: "string \<Rightarrow> int" where
  "dec_value s = (\<Sum>i<length s. digit_val (s ! i) * 10 ^ (length s - Suc i))"

text \<open>
  A well-formed \<open>Dict\<close> schema, as \<open>Dict.__init__\<close> builds it: every attribute is stored
  under its own name, and no name is stored twice.
\<close>

definition wf_attrs :: "(string \<times> attribute) list \<Rightarrow> bool" where
  "wf_attrs ats = (distinct (map fst ats) \<and> (\<forall>(k, at) \<in> set ats. name (fields at) = k))"

text \<open>
  Every supplied key is accepted: it is declared (or additional keys are allowed), and
  the declared attribute cleans its value.
\<close>

definition supplied_ok :: "bool \<Rightarrow> (string \<times> attribute) list \<Rightarrow> (string \<times> pyval) list \<Rightarrow> bool" where
  "supplied_ok additional ats kvs =
     (\<forall>(k, v) \<in> set kvs. (additional \<or> k \<in> keys ats) \<and>
        (\<forall>at. map_of ats k = Some at \<longrightarrow> (\<exists>c. clean at v = Inr c)))"

text \<open>The JSON type name the export uses for each class.\<close>

definition json_type :: "cls \<Rightarrow> string" where
  "json_type c =
     (case c of Str \<Rightarrow> ''string'' | Dir \<Rightarrow> ''string'' | File \<Rightarrow> ''string'' | IPAddr \<Rightarrow> ''string''
      | Bool \<Rightarrow> ''boolean'' | Int' \<Rightarrow> ''integer'' | List \<Rightarrow> ''array'' | Dict \<Rightarrow> ''object''
      | Any \<Rightarrow> [])"

text \<open>
  One violation for each validator that raises, in the validators' order; whether a
  \<open>validate\<close> call raised nothing but \<open>ValidationErrors\<close>, and the violations it raised;
  a collection under a dotted prefix.
\<close>

definition should_be :: "string \<Rightarrow> validator list \<Rightarrow> pyval \<Rightarrow> ValidationErrors" where
  "should_be nm vs v = map (\<lambda>what. Error nm (''Should be '' @ what) EINVAL) (List.map_filter (\<lambda>validator. validator v) vs)"

fun at_most_verrors :: "exc + unit \<Rightarrow> bool" where
  "at_most_verrors (Inr _) = True"
| "at_most_verrors (Inl (ValidationErrorsExc _)) = True"
| "at_most_verrors (Inl _) = False"

fun verrors_of :: "exc + unit \<Rightarrow> ValidationErrors" where
  "verrors_of (Inl (ValidationErrorsExc e)) = e"
| "verrors_of _ = []"

definition prefixed :: "string \<Rightarrow> ValidationErrors \<Rightarrow> ValidationErrors" where
  "prefixed p es = map (\<lambda>e. Error (p @ ''.'' @ attribute e) (errmsg e) (errno e)) es"

text \<open>An environment in which no path exists and no address parses.\<close>

definition env0 :: os_env where
  "env0 = Env (\<lambda>_. Some False) (\<lambda>_. False) (\<lambda>_. False) (\<lambda>_. False)"

text \<open>
  The parameters a call binds, as the declaration of the wrapped function gives them:
  attribute \<open>j\<close> of the schema stands for the parameter at position \<open>args_index + j\<close>,
  whose raw value is the positional argument at that position when there is one,
  otherwise the keyword argument of the parameter's name, otherwise a missing value.
  \<open>check_ok\<close>: the value cleans and its validation raises nothing but
  \<open>ValidationErrors\<close>; \<open>violations\<close>: what that validation collects; \<open>cleaned\<close>: the cleaned
  value. \<open>wf_call\<close>: the schema has one attribute per parameter after the context prefix,
  the context arguments are passed, there are no more positional arguments than
  parameters, and the parameter names are distinct.
\<close>

definition bound_value :: "callable \<Rightarrow> pyval list \<Rightarrow> (string \<times> pyval) list \<Rightarrow> nat \<Rightarrow> pyval" where
  "bound_value f args kwargs x =
     (if x < length args then args ! x
      else (case map_of kwargs (co_varnames f ! x) of Some v \<Rightarrow> v | None \<Rightarrow> PNone))"

definition params ::
  "callable \<Rightarrow> attribute list \<Rightarrow> pyval list \<Rightarrow> (string \<times> pyval) list \<Rightarrow> (attribute \<times> pyval) list" where
  "params f acc args kwargs =
     map (\<lambda>j. (acc ! j, bound_value f args kwargs (args_index f + j))) [0 ..< length acc]"

definition check_ok :: "os_env \<Rightarrow> attribute \<times> pyval \<Rightarrow> bool" where
  "check_ok env ch = (\<exists>c. clean (fst ch) (snd ch) = Inr c \<and> at_most_verrors (validate env (fst ch) c))"

definition violations :: "os_env \<Rightarrow> attribute \<times> pyval \<Rightarrow> ValidationErrors" where
  "violations env ch =
     (case clean (fst ch) (snd ch) of
        Inr c \<Rightarrow> verrors_of (validate env (fst ch) c)
      | Inl _ \<Rightarrow> [])"

definition cleaned :: "attribute \<times> pyval \<Rightarrow> pyval" where
  "cleaned ch = (case clean (fst ch) (snd ch) of Inr c \<Rightarrow> c | Inl _ \<Rightarrow> snd ch)"

definition wf_call :: "callable \<Rightarrow> attribute list \<Rightarrow> pyval list \<Rightarrow> bool" where
  "wf_call f acc args =
     (accepts_assert acc f
      \<and> args_index f \<le> length args \<and> length args \<le> co_argcount f
      \<and> co_argcount f \<le> length (co_varnames f)
      \<and> distinct (co_varnames f))"

definition kwval :: "callable \<Rightarrow> (string \<times> pyval) list \<Rightarrow> nat \<Rightarrow> pyval" where
  "kwval f kwargs x = (case map_of kwargs (co_varnames f ! x) of Some v \<Rightarrow> v | None \<Rightarrow> PNone)"

text \<open>A handler that counts its calls, and one that also returns what it was called with.\<close>

definition handler :: "pyval list \<Rightarrow> (string \<times> pyval) list \<Rightarrow> nat \<Rightarrow> (exc + pyval) \<times> nat" where
  "handler args kwargs calls = (Inr PNone, Suc calls)"

definition echo :: "pyval list \<Rightarrow> (string \<times> pyval) list \<Rightarrow> nat \<Rightarrow> (exc + pyval) \<times> nat" where
  "echo args kwargs calls = (Inr (PTuple [PList args, PDict kwargs]), Suc calls)"

section \<open>Properties\<close>

subsection \<open>Digit strings\<close>

lemma dec_value_snoc: "dec_value (s @ [c]) = dec_value s * 10 + digit_val c"
proof -
  have "(\<Sum>i<length s. digit_val ((s @ [c]) ! i) * 10 ^ (length (s @ [c]) - Suc i))
      = (\<Sum>i<length s. (digit_val (s ! i) * 10 ^ (length s - Suc i)) * 10)"
  proof (rule sum.cong)
    fix i assume "i \<in> {..<length s}"
    then have i: "i < length s" by simp
    then have "length (s @ [c]) - Suc i = Suc (length s - Suc i)" by simp
    with i show "digit_val ((s @ [c]) ! i) * 10 ^ (length (s @ [c]) - Suc i)
        = (digit_val (s ! i) * 10 ^ (length s - Suc i)) * 10"
      by (simp add: nth_append)
  qed simp
  then show ?thesis
    by (simp add: dec_value_def sum_distrib_right)
qed

lemma int_of_str_dec_value: "int_of_str s = dec_value s"
proof (induction s rule: rev_induct)
  case Nil
  show ?case by (simp add: int_of_str_def dec_value_def)
next
  case (snoc c s)
  then show ?case by (simp add: int_of_str_def dec_value_snoc)
qed

lemma digit_val_nonneg: "is_decimal c \<Longrightarrow> 0 \<le> digit_val c"
  by (simp add: is_decimal_def digit_val_def)

lemma dec_value_nonneg: "list_all is_decimal s \<Longrightarrow> 0 \<le> dec_value s"
  unfolding dec_value_def
  by (rule sum_nonneg) (simp add: list_all_length digit_val_nonneg)

subsection \<open>Evaluation\<close>

lemmas eval_defs = List_init_def Dict_init_def new_def Attribute_init_def Int_clean_def Str_clean_def
  Bool_clean_def EnumMixin_clean_def Attribute_clean_def Error_str_def str_nat.simps
  kw_required_def kw_default_def kw_enum_def kw_validators_def isdigit_def is_digit_def
  is_decimal_def py_int_def int_of_str_def digit_val_def keys_def py_in_def digit_char_def
  str_int_def in_place_def

subsection \<open>Int.clean\<close>

text \<open>
  What \<open>Int.clean\<close> does, case by case: a value of integer type (a boolean is one) is
  returned unchanged; a non-empty string of the decimal digits \<open>0\<close> to \<open>9\<close> is coerced
  to the non-negative integer it denotes; \<open>None\<close> is replaced by the default when the
  attribute is not required; a string that passes \<open>isdigit\<close> with a digit that is not
  decimal raises the \<open>ValueError\<close> of \<open>int\<close>; every other value raises the error
  \<open>Not an integer\<close> on the attribute's name.
\<close>

lemma Int_clean_cases:
  "(isinstance_int v \<longrightarrow> Int_clean f v = Inr v)
   \<and> Int_clean f (PBool True) = Inr (PBool True)
   \<and> (s \<noteq> [] \<and> list_all is_decimal s \<longrightarrow>
        Int_clean f (PStr s) = Inr (PInt (dec_value s)) \<and> 0 \<le> dec_value s)
   \<and> (\<not> required f \<longrightarrow> Int_clean f PNone = Inr (default f))
   \<and> (isdigit s \<and> \<not> list_all is_decimal s \<longrightarrow>
        Int_clean f (PStr s)
          = Inl (ValueError (''invalid literal for int() with base 10: '' @ repr_str s)))
   \<and> (\<not> isinstance_int v \<and> \<not> (\<exists>t. v = PStr t \<and> isdigit t) \<and> \<not> (v = PNone \<and> \<not> required f)
        \<longrightarrow> Int_clean f v = Inl (ErrorExc (Error (name f) ''Not an integer'' EINVAL)))
   \<and> Int_clean f (PStr ''-5'') = Inl (ErrorExc (Error (name f) ''Not an integer'' EINVAL))
   \<and> Int_clean f (PStr ''true'') = Inl (ErrorExc (Error (name f) ''Not an integer'' EINVAL))"
proof -
  have int_ok: "isinstance_int v \<Longrightarrow> Int_clean f v = Inr v"
    by (cases v) (simp_all add: Int_clean_def)
  have dec: "list_all is_decimal s \<Longrightarrow> s \<noteq> [] \<Longrightarrow> isdigit s"
    by (simp add: isdigit_def is_digit_def list_all_iff)
  have digits: "s \<noteq> [] \<Longrightarrow> list_all is_decimal s \<Longrightarrow> Int_clean f (PStr s) = Inr (PInt (dec_value s))"
    by (simp add: Int_clean_def dec py_int_def int_of_str_dec_value)
  have none: "\<not> required f \<Longrightarrow> Int_clean f PNone = Inr (default f)"
    by (simp add: Int_clean_def)
  have super: "isdigit s \<Longrightarrow> \<not> list_all is_decimal s \<Longrightarrow>
      Int_clean f (PStr s)
        = Inl (ValueError (''invalid literal for int() with base 10: '' @ repr_str s))"
    by (simp add: Int_clean_def py_int_def)
  have other: "\<not> isinstance_int v \<Longrightarrow> \<not> (\<exists>t. v = PStr t \<and> isdigit t)
      \<Longrightarrow> \<not> (v = PNone \<and> \<not> required f)
      \<Longrightarrow> Int_clean f v = Inl (ErrorExc (Error (name f) ''Not an integer'' EINVAL))"
    by (cases v) (auto simp: Int_clean_def)
  have minus: "\<not> isdigit ''-5''" and true: "\<not> isdigit ''true''"
    by (simp_all add: isdigit_def is_digit_def is_decimal_def)
  show ?thesis
    using int_ok digits none super other minus true dec_value_nonneg [of s]
    by (simp add: Int_clean_def)
qed

text \<open>
  C10. The claim: a string of digit characters is coerced to the integer it denotes,
  and every value that is not accepted raises the single error \<open>Not an integer\<close>. The
  string made of the superscript two (U+00B2) passes \<open>str.isdigit\<close>, so \<open>int\<close> is
  called on it and raises \<open>ValueError\<close>: the value is neither coerced nor rejected with
  \<open>Not an integer\<close>.
\<close>

theorem Int_clean_superscript_digit:
  "isdigit [CHR 0xB2]
   \<and> clean (new Int' ''x'') (PStr [CHR 0xB2])
       = Inl (ValueError (''invalid literal for int() with base 10: '' @ [CHR 0x27, CHR 0xB2, CHR 0x27]))
   \<and> clean (kw_required True (new Int' ''x'')) (PStr [CHR 0xB2])
       \<noteq> Inl (ErrorExc (Error ''x'' ''Not an integer'' EINVAL))"
  by (simp add: eval_defs repr_str_def repr_char_def Let_def)

subsection \<open>List.clean\<close>

text \<open>
  What the inner loop computes when no candidate is a \<open>Dict\<close> or a \<open>List\<close> (the
  candidates that clean in place): an element is kept only when every candidate accepts
  it, and its cleaned value is the last candidate's result.
\<close>

lemma List_clean_item_Inr:
  "\<forall>i \<in> set its. cls i \<noteq> Dict \<and> cls i \<noteq> List \<Longrightarrow>
   List_clean_item its v cur = Inr (Inr c) \<longleftrightarrow>
     (\<forall>i \<in> set its. \<exists>r. clean i v = Inr r) \<and>
     (if its = [] then c = cur else clean (last its) v = Inr c)"
  by (induction its arbitrary: cur) (auto simp: in_place_def split: sum.splits exc.splits)

text \<open>
  C1. The claim: each element is cleaned by the first candidate of \<open>items\<close> that accepts
  it, and the clean fails only when no candidate accepts the element. The loop leaves at
  the first candidate that rejects instead: with \<open>items = [Int('a'), Str('b')]\<close> the
  element \<open>'x'\<close>, which \<open>Str('b')\<close> accepts, makes the whole clean fail on \<open>Int('a')\<close>'s
  rejection; and with \<open>items = [Str('s'), Int('i')]\<close> the element \<open>'5'\<close> is cleaned by
  the last candidate, not by the first one that accepts it.
\<close>

theorem List_clean_leaves_at_first_rejection:
  "clean (new Str ''b'') (PStr ''x'') = Inr (PStr ''x'')
   \<and> clean (List_init ''l'' [new Int' ''a'', new Str ''b'']) (PList [PStr ''x''])
       = Inl (ErrorExc (Error ''l'' ''Item#0 is not valid per list types: [a] Not an integer'' EINVAL))
   \<and> clean (new Str ''s'') (PStr ''5'') = Inr (PStr ''5'')
   \<and> clean (List_init ''l'' [new Str ''s'', new Int' ''i'']) (PList [PStr ''5''])
       = Inr (PList [PInt 5])"
  by (simp add: eval_defs)

lemma single_loop_idem:
  assumes idem: "\<And>x y. clean c x = Inr y \<Longrightarrow> clean c y = Inr y"
  shows "List_clean_loop nm [c] i xs = Inr ys \<Longrightarrow> List_clean_loop nm [c] j ys = Inr ys"
proof (induction xs arbitrary: i j ys)
  case Nil
  then show ?case by simp
next
  case (Cons x xs)
  then show ?case
    by (auto split: sum.splits exc.splits dest: idem)
qed

lemma EnumMixin_clean_Inr: "EnumMixin_clean f v = Inr w \<Longrightarrow> w = v"
  by (auto simp: EnumMixin_clean_def Let_def split: option.splits if_splits)

lemma Int_clean_idem:
  "Int_clean f x = Inr y \<Longrightarrow> default f = PNone \<or> isinstance_int (default f) \<Longrightarrow> Int_clean f y = Inr y"
  by (cases x) (auto simp: Int_clean_def split: if_splits sum.splits)

text \<open>
  C9 as stated fails: the enum of a \<open>List\<close> is checked on the raw elements, before the
  candidate coerces them, so a cleaned list need not pass the enum again.
\<close>

theorem List_clean_not_idempotent_counterexample:
  "clean (kw_enum [PStr ''5''] (List_init ''l'' [new Int' ''i''])) (PList [PStr ''5''])
     = Inr (PList [PInt 5])
   \<and> clean (kw_enum [PStr ''5''] (List_init ''l'' [new Int' ''i''])) (PList [PInt 5])
     = Inl (ErrorExc (Error ''l'' ''Invalid choice: [5]'' EINVAL))"
  by (simp add: eval_defs)

text \<open>
  C9, amended. For a \<open>List\<close> with no candidate, or with one candidate, no enum and a
  candidate whose own clean returns its results unchanged, and whose default (used when
  the attribute is not required) is itself a cleaned value: when \<open>List.clean\<close> succeeds
  on a value, cleaning the result again succeeds and yields the same value.
\<close>

theorem List_clean_idempotent:
  assumes its: "its = [] \<or> (\<exists>c. its = [c] \<and> enum f = None \<and> (\<forall>x y. clean c x = Inr y \<longrightarrow> clean c y = Inr y))"
    and dflt: "required f \<or> clean (Attribute List f its ats) (default f) = Inr (default f)"
    and ok: "clean (Attribute List f its ats) v = Inr v'"
  shows "clean (Attribute List f its ats) v' = Inr v'"
proof -
  from ok obtain w where "EnumMixin_clean f v = Inr w"
    by (auto split: sum.splits)
  then have en: "EnumMixin_clean f v = Inr v"
    by (auto dest: EnumMixin_clean_Inr)
  show ?thesis
  proof (cases "v = PNone \<and> \<not> required f")
    case True
    with ok en have "v' = default f"
      by simp
    with dflt True show ?thesis by simp
  next
    case False
    with ok en obtain xs where xs: "v = PList xs"
      by (cases v) auto
    show ?thesis
    proof (cases "its = []")
      case True
      with ok en xs show ?thesis by auto
    next
      case nonempty: False
      with its obtain c where c: "its = [c]" "enum f = None"
        and idem: "\<And>x y. clean c x = Inr y \<Longrightarrow> clean c y = Inr y"
        by blast
      from ok xs c en obtain ys where ys: "List_clean_loop (name f) [c] 0 xs = Inr ys" "v' = PList ys"
        by (auto split: sum.splits)
      from single_loop_idem [OF idem ys(1)] have "List_clean_loop (name f) [c] 0 ys = Inr ys" .
      with c ys show ?thesis
        by (simp add: EnumMixin_clean_def)
    qed
  qed
qed

theorem List_clean_idempotent_witness:
  "clean (List_init ''l'' [new Int' ''i'']) (PList [PStr ''5'', PNone]) = Inr (PList [PInt 5, PNone])
   \<and> clean (List_init ''l'' [new Int' ''i'']) (PList [PInt 5, PNone]) = Inr (PList [PInt 5, PNone])"
proof -
  let ?f = "(Attribute_init ''l'')\<lparr>has_default := True, default := PList []\<rparr>"
  let ?c = "Attribute Int' (Attribute_init ''i'') [] []"
  have idem: "\<forall>x y. clean ?c x = Inr y \<longrightarrow> clean ?c y = Inr y"
    by (auto intro: Int_clean_idem simp: Attribute_init_def)
  have first: "clean (Attribute List ?f [?c] []) (PList [PStr ''5'', PNone]) = Inr (PList [PInt 5, PNone])"
    by (simp add: eval_defs)
  have "clean (Attribute List ?f [?c] []) (PList [PInt 5, PNone]) = Inr (PList [PInt 5, PNone])"
    by (rule List_clean_idempotent [OF _ _ first]) (use idem in \<open>simp_all add: eval_defs\<close>)
  with first show ?thesis
    by (simp add: List_init_def new_def)
qed

subsection \<open>Dict.clean\<close>

lemma keys_dict_set: "keys (dict_set d k v) = insert k (keys d)"
proof (induction d)
  case Nil
  show ?case by (simp add: keys_def)
next
  case (Cons p d)
  obtain k' v' where p: "p = (k', v')" by (cases p)
  from Cons.IH show ?case
    by (cases "k' = k") (simp_all add: keys_def p insert_commute)
qed

lemma map_of_dict_set: "map_of (dict_set d k v) = (map_of d)(k \<mapsto> v)"
  by (induction d) (auto simp: fun_eq_iff)

lemma Dict_clean_keys_keys:
  "Dict_clean_keys ad ats snap data = Inr d \<Longrightarrow> keys snap \<subseteq> keys data \<Longrightarrow> keys d = keys data"
proof (induction snap arbitrary: data)
  case Nil
  then show ?case by simp
next
  case (Cons kv snap)
  obtain k v where kv: "kv = (k, v)" by (cases kv)
  from Cons.prems show ?case
    unfolding kv
    by (auto simp: keys_dict_set split: if_splits option.splits sum.splits dest!: Cons.IH) (auto simp: keys_def)
qed

lemma Dict_clean_keys_ok:
  "(\<exists>d. Dict_clean_keys ad ats snap data = Inr d) \<longleftrightarrow> supplied_ok ad ats snap"
proof (induction snap arbitrary: data)
  case Nil
  show ?case by (simp add: supplied_ok_def)
next
  case (Cons kv snap)
  obtain k v where kv: "kv = (k, v)" by (cases kv)
  have tl: "supplied_ok ad ats ((k, v) # snap) \<longleftrightarrow>
      (ad \<or> k \<in> keys ats) \<and> (\<forall>at. map_of ats k = Some at \<longrightarrow> (\<exists>c. clean at v = Inr c))
      \<and> supplied_ok ad ats snap"
    by (simp add: supplied_ok_def)
  show ?case
  proof (cases "\<not> ad \<and> k \<notin> keys ats")
    case True
    then show ?thesis
      unfolding kv tl by simp
  next
    case False
    then have allowed: "(\<not> ad \<and> k \<notin> keys ats) = False" "ad \<or> k \<in> keys ats"
      by simp_all
    show ?thesis
    proof (cases "map_of ats k")
      case None
      with allowed Cons.IH [of data] show ?thesis
        unfolding kv tl by (cases ad) auto
    next
      case (Some at)
      show ?thesis
      proof (cases "clean at v")
        case (Inl e)
        with Some allowed show ?thesis
          unfolding kv tl by (cases ad) auto
      next
        case (Inr c)
        with Some allowed Cons.IH [of "dict_set data k c"] show ?thesis
          unfolding kv tl by (cases ad) auto
      qed
    qed
  qed
qed

lemma Dict_clean_missing_required:
  "find (\<lambda>at. required (fields at) \<and> name (fields at) \<notin> keys data) as = Some m
   \<Longrightarrow> distinct (map (\<lambda>at. name (fields at)) as)
   \<Longrightarrow> Dict_clean_missing as data = Inl (ErrorExc (Error (name (fields m)) ''This field is required'' EINVAL))"
proof (induction as arbitrary: data)
  case Nil
  then show ?case by simp
next
  case (Cons a as)
  show ?case
  proof (cases "required (fields a) \<and> name (fields a) \<notin> keys data")
    case True
    with Cons.prems show ?thesis by simp
  next
    case False
    let ?data' = "dict_set data (name (fields a)) (default (fields a))"
    from Cons.prems False
    have f: "find (\<lambda>at. required (fields at) \<and> name (fields at) \<notin> keys data) as = Some m"
      and d: "distinct (map (\<lambda>at. name (fields at)) as)"
      and n: "\<forall>at \<in> set as. name (fields at) \<noteq> name (fields a)"
      by (auto simp: image_iff)
    from n have "find (\<lambda>at. required (fields at) \<and> name (fields at) \<notin> keys ?data') as
        = find (\<lambda>at. required (fields at) \<and> name (fields at) \<notin> keys data) as"
      by (intro find_cong) (auto simp: keys_dict_set)
    with f have f': "find (\<lambda>at. required (fields at) \<and> name (fields at) \<notin> keys ?data') as = Some m"
      by simp
    from False Cons.IH [OF f d] Cons.IH [OF f' d] show ?thesis
      by auto
  qed
qed

lemma Dict_clean_missing_defaults:
  "Dict_clean_missing as data = Inr d
   \<Longrightarrow> distinct (map (\<lambda>at. name (fields at)) as)
   \<Longrightarrow> (\<forall>at \<in> set as. has_default (fields at) \<and> name (fields at) \<notin> keys data
          \<longrightarrow> map_of d (name (fields at)) = Some (default (fields at)))
     \<and> (\<forall>k. k \<notin> (\<lambda>at. name (fields at)) ` set as \<longrightarrow> map_of d k = map_of data k)
     \<and> (\<forall>k \<in> keys data. map_of d k = map_of data k)"
proof (induction as arbitrary: data)
  case Nil
  then show ?case by simp
next
  case (Cons a as)
  let ?n = "name (fields a)"
  let ?data' = "dict_set data ?n (default (fields a))"
  from Cons.prems have d: "distinct (map (\<lambda>at. name (fields at)) as)"
    and n: "?n \<notin> (\<lambda>at. name (fields at)) ` set as"
    and n': "\<forall>at \<in> set as. name (fields at) \<noteq> ?n"
    by (auto simp: image_iff)
  show ?case
  proof (cases "?n \<notin> keys data \<and> has_default (fields a)")
    case True
    with Cons.prems have r: "Dict_clean_missing as ?data' = Inr d"
      by (auto split: if_splits)
    note IH = Cons.IH [OF r d]
    from IH n have a: "map_of d ?n = Some (default (fields a))"
      by (simp add: map_of_dict_set)
    from IH True n n' a show ?thesis
      by (auto simp: keys_dict_set map_of_dict_set)
  next
    case False
    with Cons.prems have r: "Dict_clean_missing as data = Inr d"
      by (auto split: if_splits)
    note IH = Cons.IH [OF r d]
    from False have "?n \<in> keys data \<or> \<not> has_default (fields a)" by blast
    with IH n show ?thesis
      by auto
  qed
qed

lemma wf_attrs_names: "wf_attrs ats \<Longrightarrow> map (\<lambda>at. name (fields at)) (map snd ats) = map fst ats"
  by (induction ats) (auto simp: wf_attrs_def)

text \<open>
  C5 as stated fails: a supplied field that does not clean is reported first, and the
  missing required field is not named.
\<close>

theorem Dict_clean_required_counterexample:
  "clean (Dict_init ''d'' [kw_required True (new Int' ''a''), new Int' ''b''])
      (PDict [(''b'', PStr ''x'')])
     = Inl (ErrorExc (Error ''b'' ''Not an integer'' EINVAL))
   \<and> Error ''b'' ''Not an integer'' EINVAL \<noteq> Error ''a'' ''This field is required'' EINVAL"
  by (simp add: eval_defs)

text \<open>
  C5, amended. For a well-formed \<open>Dict\<close> schema with \<open>update\<close> false and an input mapping
  that lacks a declared required field, \<open>Dict.clean\<close> fails; when every supplied key is
  accepted, it fails with \<open>This field is required\<close> on the name of the first missing
  required field, in declaration order. When \<open>Dict.clean\<close> succeeds, every declared
  attribute that has a default and is absent from the input holds that default in the
  returned mapping.
\<close>

theorem Dict_clean_required_and_defaults:
  assumes wf: "wf_attrs ats" and upd: "\<not> update f"
  shows "(find (\<lambda>at. required (fields at) \<and> name (fields at) \<notin> keys kvs) (map snd ats) = Some m \<longrightarrow>
            (\<exists>e. clean (Attribute Dict f its ats) (PDict kvs) = Inl e) \<and>
            (supplied_ok (additional_attrs f) ats kvs \<longrightarrow>
               clean (Attribute Dict f its ats) (PDict kvs)
                 = Inl (ErrorExc (Error (name (fields m)) ''This field is required'' EINVAL))))
       \<and> (clean (Attribute Dict f its ats) (PDict kvs) = Inr r \<longrightarrow>
            (\<exists>d. r = PDict d \<and>
               (\<forall>at \<in> set (map snd ats). has_default (fields at) \<and> name (fields at) \<notin> keys kvs
                  \<longrightarrow> map_of d (name (fields at)) = Some (default (fields at)))))"
proof -
  from wf have dist: "distinct (map (\<lambda>at. name (fields at)) (map snd ats))"
    by (simp only: wf_attrs_names) (simp add: wf_attrs_def)
  have req: "clean (Attribute Dict f its ats) (PDict kvs)
      = Inl (ErrorExc (Error (name (fields m)) ''This field is required'' EINVAL))"
    if m: "find (\<lambda>at. required (fields at) \<and> name (fields at) \<notin> keys kvs) (map snd ats) = Some m"
      and d: "Dict_clean_keys (additional_attrs f) ats kvs kvs = Inr d" for d
  proof -
    from Dict_clean_keys_keys [OF d] have "keys d = keys kvs" by simp
    with m have "find (\<lambda>at. required (fields at) \<and> name (fields at) \<notin> keys d) (map snd ats) = Some m"
      by simp
    from Dict_clean_missing_required [OF this dist] d upd show ?thesis
      by simp
  qed
  have fails: "\<exists>e. clean (Attribute Dict f its ats) (PDict kvs) = Inl e"
    if m: "find (\<lambda>at. required (fields at) \<and> name (fields at) \<notin> keys kvs) (map snd ats) = Some m"
  proof (cases "Dict_clean_keys (additional_attrs f) ats kvs kvs")
    case (Inl e)
    then show ?thesis by simp
  next
    case (Inr d)
    from req [OF m Inr] show ?thesis by simp
  qed
  have dflt: "\<exists>d. r = PDict d \<and>
       (\<forall>at \<in> set (map snd ats). has_default (fields at) \<and> name (fields at) \<notin> keys kvs
          \<longrightarrow> map_of d (name (fields at)) = Some (default (fields at)))"
    if ok: "clean (Attribute Dict f its ats) (PDict kvs) = Inr r"
  proof -
    from ok upd obtain d d' where d: "Dict_clean_keys (additional_attrs f) ats kvs kvs = Inr d"
      and d': "Dict_clean_missing (map snd ats) d = Inr d'" and r: "r = PDict d'"
      by (auto split: sum.splits)
    from Dict_clean_keys_keys [OF d] have k: "keys d = keys kvs" by simp
    from Dict_clean_missing_defaults [OF d' dist] k r show ?thesis
      by simp
  qed
  have req': "clean (Attribute Dict f its ats) (PDict kvs)
      = Inl (ErrorExc (Error (name (fields m)) ''This field is required'' EINVAL))"
    if m: "find (\<lambda>at. required (fields at) \<and> name (fields at) \<notin> keys kvs) (map snd ats) = Some m"
      and s: "supplied_ok (additional_attrs f) ats kvs"
  proof -
    from s obtain d where "Dict_clean_keys (additional_attrs f) ats kvs kvs = Inr d"
      unfolding Dict_clean_keys_ok [symmetric, of _ _ _ kvs] by blast
    from req [OF m this] show ?thesis .
  qed
  from req' fails dflt show ?thesis
    by blast
qed

lemma wf_attrs_dict_set:
  "wf_attrs d \<Longrightarrow> wf_attrs (dict_set d (name (fields i)) i)"
proof (induction d)
  case Nil
  show ?case by (simp add: wf_attrs_def)
next
  case (Cons p d)
  obtain k a where p: "p = (k, a)" by (cases p)
  from Cons.prems have wd: "wf_attrs d" and k: "k \<notin> fst ` set d" and n: "name (fields a) = k"
    by (simp_all add: wf_attrs_def p)
  show ?case
  proof (cases "k = name (fields i)")
    case True
    with wd k n show ?thesis
      by (simp add: wf_attrs_def p)
  next
    case False
    with Cons.IH [OF wd] k n keys_dict_set [of d "name (fields i)" i] show ?thesis
      by (simp add: wf_attrs_def p keys_def)
  qed
qed

lemma wf_attrs_foldl:
  "wf_attrs d \<Longrightarrow> wf_attrs (foldl (\<lambda>d i. dict_set d (name (fields i)) i) d as)"
  by (induction as arbitrary: d) (simp_all add: wf_attrs_dict_set)

lemma wf_attrs_Dict_init: "wf_attrs (attrs (Dict_init n as))"
proof -
  have "wf_attrs []" by (simp add: wf_attrs_def)
  then show ?thesis
    unfolding Dict_init_def attribute.sel by (rule wf_attrs_foldl)
qed

text \<open>The schemas \<open>Dict.__init__\<close> builds are well-formed, and the theorem applies to one.\<close>

theorem Dict_clean_required_and_defaults_witness:
  "clean (Dict_init ''d'' [kw_required True (new Int' ''a''), kw_default (PInt 3) (new Int' ''b'')])
      (PDict [])
     = Inl (ErrorExc (Error ''a'' ''This field is required'' EINVAL))
   \<and> clean (Dict_init ''d'' [kw_required True (new Int' ''a''), kw_default (PInt 3) (new Int' ''b'')])
      (PDict [(''a'', PStr ''1'')])
     = Inr (PDict [(''a'', PInt 1), (''b'', PInt 3)])"
proof -
  let ?a = "Attribute Int' ((Attribute_init ''a'')\<lparr>required := True\<rparr>) [] []"
  let ?b = "Attribute Int' ((Attribute_init ''b'')\<lparr>has_default := True, default := PInt 3\<rparr>) [] []"
  let ?ats = "[(''a'', ?a), (''b'', ?b)]"
  let ?f = "Attribute_init ''d''"
  have D: "Dict_init ''d'' [kw_required True (new Int' ''a''), kw_default (PInt 3) (new Int' ''b'')]
      = Attribute Dict ?f [] ?ats"
    by (simp add: eval_defs)
  have wf: "wf_attrs ?ats" by (simp add: wf_attrs_def Attribute_init_def)
  have u: "\<not> update ?f" by (simp add: Attribute_init_def)
  have m: "find (\<lambda>at. required (fields at) \<and> name (fields at) \<notin> keys []) (map snd ?ats) = Some ?a"
    by (simp add: Attribute_init_def keys_def)
  have s: "supplied_ok (additional_attrs ?f) ?ats []" by (simp add: supplied_ok_def)
  from Dict_clean_required_and_defaults [OF wf u, of "[]" ?a "[]"] m s
  have "clean (Attribute Dict ?f [] ?ats) (PDict [])
      = Inl (ErrorExc (Error (name (fields ?a)) ''This field is required'' EINVAL))"
    by blast
  then have "clean (Attribute Dict ?f [] ?ats) (PDict [])
      = Inl (ErrorExc (Error ''a'' ''This field is required'' EINVAL))"
    by (simp add: Attribute_init_def)
  moreover have "clean (Attribute Dict ?f [] ?ats) (PDict [(''a'', PStr ''1'')])
     = Inr (PDict [(''a'', PInt 1), (''b'', PInt 3)])"
    by (simp add: eval_defs)
  ultimately show ?thesis
    unfolding D by simp
qed

subsection \<open>to_json_schema\<close>

lemma map_of_top_level:
  "map_of (top_level parent f schema) ''type'' = map_of schema ''type''"
  by (simp add: top_level_def map_of_dict_set)

lemma map_of_top_level_required:
  "map_of (top_level False f schema) ''_required_'' = Some (PBool (required f))"
  by (simp add: top_level_def map_of_dict_set)

lemma map_of_with_enum:
  "k \<noteq> ''enum'' \<Longrightarrow> map_of (with_enum f schema) k = map_of schema k"
  by (simp add: with_enum_def map_of_dict_set split: option.splits)

text \<open>
  C2 as stated fails: a \<open>Dict\<close> exports the bare type \<open>object\<close> whether it is required
  or not.
\<close>

theorem to_json_schema_Dict_counterexample:
  "\<not> required (fields (Dict_init ''d'' []))
   \<and> map_of (to_json_schema False (Dict_init ''d'' [])) ''type'' = Some (PStr ''object'')"
  by (simp add: Dict_init_def Attribute_init_def top_level_def Let_def map_of_dict_set)

text \<open>
  C2, amended. For \<open>Str\<close>, \<open>Dir\<close>, \<open>File\<close>, \<open>IPAddr\<close>, \<open>Bool\<close> and \<open>Int\<close> the exported
  \<open>type\<close> is the bare type name when the attribute is required and its union with
  \<open>null\<close> when it is not; a \<open>Dict\<close> always exports \<open>object\<close> and an \<open>Any\<close> exports no
  \<open>type\<close> (it exports \<open>anyOf\<close>); every class exports \<open>_required_\<close> equal to its
  \<open>required\<close> flag when it has no parent. So a required top-level \<open>Int\<close> has type
  \<open>integer\<close> and \<open>_required_\<close> true, and a non-required one has type
  \<open>[integer, null]\<close>.
\<close>

theorem to_json_schema_type:
  "(c \<in> {Str, Dir, File, IPAddr, Bool, Int'} \<longrightarrow>
      map_of (to_json_schema parent (Attribute c f its ats)) ''type''
        = Some (if required f then PStr (json_type c)
                else PList [PStr (json_type c), PStr ''null'']))
   \<and> map_of (to_json_schema parent (Attribute Dict f its ats)) ''type'' = Some (PStr ''object'')
   \<and> map_of (to_json_schema parent (Attribute Any f its ats)) ''type'' = None
   \<and> map_of (to_json_schema False (Attribute c f its ats)) ''_required_'' = Some (PBool (required f))"
proof -
  have scalar: "map_of (to_json_schema parent (Attribute c f its ats)) ''type''
        = Some (if required f then PStr (json_type c)
                else PList [PStr (json_type c), PStr ''null''])"
    if "c \<in> {Str, Dir, File, IPAddr, Bool, Int'}"
    using that
    by (auto simp: Str_to_json_schema_def Bool_to_json_schema_def Int_to_json_schema_def
        json_type_def map_of_top_level map_of_with_enum map_of_dict_set Let_def)
  have dict: "map_of (to_json_schema parent (Attribute Dict f its ats)) ''type'' = Some (PStr ''object'')"
    by (simp add: Let_def map_of_dict_set map_of_top_level)
  have any: "map_of (to_json_schema parent (Attribute Any f its ats)) ''type'' = None"
    by (simp add: Any_to_json_schema_def Let_def map_of_dict_set)
  have req: "map_of (to_json_schema False (Attribute c f its ats)) ''_required_'' = Some (PBool (required f))"
    by (cases c)
      (simp_all add: Any_to_json_schema_def Str_to_json_schema_def Bool_to_json_schema_def
        Int_to_json_schema_def List_to_json_schema_def Let_def map_of_dict_set map_of_with_enum
        map_of_top_level_required top_level_def)
  from scalar dict any req show ?thesis by blast
qed

theorem to_json_schema_type_witness:
  "Int' \<in> {Str, Dir, File, IPAddr, Bool, Int'}
   \<and> map_of (to_json_schema False (kw_required True (new Int' ''x''))) ''type'' = Some (PStr ''integer'')
   \<and> map_of (to_json_schema False (kw_required True (new Int' ''x''))) ''_required_'' = Some (PBool True)
   \<and> map_of (to_json_schema False (new Int' ''x'')) ''type''
       = Some (PList [PStr ''integer'', PStr ''null''])"
  using to_json_schema_type [of Int' False "(Attribute_init ''x'')\<lparr>required := True\<rparr>" "[]" "[]"]
    to_json_schema_type [of Int' False "Attribute_init ''x''" "[]" "[]"]
  by (simp add: new_def kw_required_def json_type_def Attribute_init_def)

text \<open>The \<open>type\<close> a \<open>List\<close> exports, as the code computes it.\<close>

lemma List_to_json_schema_type:
  "map_of (to_json_schema parent (Attribute List f its ats)) ''type''
     = Some (if required f then PList [PStr ''array'', PStr ''null''] else PStr ''array'')"
  by (simp add: List_to_json_schema_def Let_def map_of_with_enum map_of_dict_set)

subsection \<open>validate\<close>

lemma run_validators_eq: "run_validators nm vs v acc = acc @ should_be nm vs v"
  by (induction vs arbitrary: acc) (auto simp: should_be_def add_def List.map_filter_simps split: option.splits)

lemma Attribute_validate_eq:
  "Attribute_validate f v = raise_if (should_be (name f) (validators f) v)"
  by (simp add: Attribute_validate_def run_validators_eq)

lemma add_child_prefixed: "add_child verrors p e = verrors @ prefixed p e"
  by (simp add: add_child_def prefixed_def)

lemma List_validate_item_eq:
  "\<forall>a \<in> set its. at_most_verrors (validate env a v) \<Longrightarrow>
   List_validate_item env p its v verrors
     = Inr (verrors @ concat (map (\<lambda>a. prefixed p (verrors_of (validate env a v))) its))"
proof (induction its arbitrary: verrors)
  case Nil
  show ?case by simp
next
  case (Cons a its)
  from Cons.prems have a: "at_most_verrors (validate env a v)"
    and rest: "\<forall>a \<in> set its. at_most_verrors (validate env a v)" by simp_all
  show ?case
  proof (cases "validate env a v")
    case (Inr u)
    with Cons.IH [OF rest] show ?thesis by (simp add: prefixed_def)
  next
    case (Inl e)
    with a obtain es where "e = ValidationErrorsExc es" by (cases e) simp_all
    with Inl Cons.IH [OF rest] show ?thesis by (simp add: add_child_prefixed)
  qed
qed

lemma List_validate_loop_eq:
  "\<forall>x \<in> set xs. \<forall>a \<in> set its. at_most_verrors (validate env a x) \<Longrightarrow>
   List_validate_loop env nm its i xs verrors
     = Inr (verrors @ concat (map (\<lambda>(j, x).
          concat (map (\<lambda>a. prefixed (nm @ ''.'' @ str_nat j) (verrors_of (validate env a x))) its))
          (enumerate i xs)))"
proof (induction xs arbitrary: i verrors)
  case Nil
  show ?case by simp
next
  case (Cons x xs)
  from Cons.prems have x: "\<forall>a \<in> set its. at_most_verrors (validate env a x)"
    and rest: "\<forall>x \<in> set xs. \<forall>a \<in> set its. at_most_verrors (validate env a x)" by simp_all
  show ?case
    by (simp add: List_validate_item_eq [OF x] Cons.IH [OF rest])
qed

lemma Dict_validate_loop_eq:
  "\<forall>(k, a) \<in> set ats. \<forall>x. map_of kvs (name (fields a)) = Some x \<longrightarrow> at_most_verrors (validate env a x) \<Longrightarrow>
   Dict_validate_loop env nm ats (PDict kvs) verrors
     = Inr (verrors @ concat (map (\<lambda>(k, a).
          case map_of kvs (name (fields a)) of
            None \<Rightarrow> []
          | Some x \<Rightarrow> prefixed nm (verrors_of (validate env a x))) ats))"
proof (induction ats arbitrary: verrors)
  case Nil
  show ?case by simp
next
  case (Cons p ats)
  obtain k a where p: "p = (k, a)" by (cases p)
  from Cons.prems have a: "\<forall>x. map_of kvs (name (fields a)) = Some x \<longrightarrow> at_most_verrors (validate env a x)"
    and rest: "\<forall>(k, a) \<in> set ats. \<forall>x. map_of kvs (name (fields a)) = Some x \<longrightarrow> at_most_verrors (validate env a x)"
    by (simp_all add: p)
  show ?case
  proof (cases "map_of kvs (name (fields a))")
    case None
    with Cons.IH [OF rest] show ?thesis by (simp add: p)
  next
    case (Some x)
    with a have ok: "at_most_verrors (validate env a x)" by simp
    show ?thesis
    proof (cases "validate env a x")
      case (Inr u)
      with Some Cons.IH [OF rest] show ?thesis by (simp add: p prefixed_def)
    next
      case (Inl e)
      with ok obtain es where "e = ValidationErrorsExc es" by (cases e) simp_all
      with Inl Some Cons.IH [OF rest] show ?thesis by (simp add: p add_child_prefixed)
    qed
  qed
qed


lemma Dir_validate_eq:
  "Dir_validate env f v =
     (if truthy v then
        (case path_exists env v of
           None \<Rightarrow> Inl TypeError
         | Some ex \<Rightarrow>
             if \<not> ex then Inl (ValidationErrorsExc [Error (name f) ''This path does not exist.'' ENOENT])
             else if \<not> path_isdir env v
               then Inl (ValidationErrorsExc [Error (name f) ''This path is not a directory.'' ENOTDIR])
             else raise_if (should_be (name f) (validators f) v))
      else raise_if (should_be (name f) (validators f) v))"
  by (simp add: Dir_validate_def Attribute_validate_eq add_def Let_def split: option.splits)

lemma File_validate_eq:
  "File_validate env f v =
     (if truthy v then
        (case path_exists env v of
           None \<Rightarrow> Inl TypeError
         | Some ex \<Rightarrow>
             if \<not> ex then Inl (ValidationErrorsExc [Error (name f) ''This path does not exist.'' ENOENT])
             else if \<not> path_isfile env v
               then Inl (ValidationErrorsExc [Error (name f) ''This path is not a file.'' EISDIR])
             else raise_if (should_be (name f) (validators f) v))
      else raise_if (should_be (name f) (validators f) v))"
  by (simp add: File_validate_def Attribute_validate_eq add_def Let_def split: option.splits)

text \<open>
  C3 as stated fails: when the path check of a \<open>Dir\<close> fails, \<open>validate\<close> raises that
  violation alone, and the violation of its validator is not in the aggregate.
\<close>

theorem validate_first_violation_only_counterexample:
  "validate env0 (kw_validators [\<lambda>v. Some ''short''] (new Dir ''p'')) (PStr ''/nope'')
     = Inl (ValidationErrorsExc [Error ''p'' ''This path does not exist.'' ENOENT])
   \<and> should_be ''p'' [\<lambda>v. Some ''short''] (PStr ''/nope'') = [Error ''p'' ''Should be short'' EINVAL]"
  by (simp add: new_def kw_validators_def Attribute_init_def env0_def Dir_validate_def add_def
      should_be_def List.map_filter_simps)

text \<open>
  C3, amended. For \<open>Any\<close>, \<open>Str\<close>, \<open>Bool\<close> and \<open>Int\<close>, and for \<open>Dir\<close> and \<open>File\<close> on a value
  that is falsy or passes the path check, \<open>validate\<close> raises nothing when no validator
  fails and otherwise \<open>ValidationErrors\<close> with one \<open>Should be\<close> violation per failing
  validator, in order. When the path check of a \<open>Dir\<close> or \<open>File\<close> fails, it raises
  \<open>ValidationErrors\<close> with that single path violation. On a \<open>List\<close> (given a value it can
  iterate) and on a \<open>Dict\<close> (given a dictionary), when the nested \<open>validate\<close> calls raise
  nothing but \<open>ValidationErrors\<close>, it raises \<open>ValidationErrors\<close> with every nested
  violation, in order, under the prefix \<open>name.index\<close> or \<open>name\<close>, and nothing when
  there is none.
\<close>

theorem validate_aggregates:
  "(c \<in> {Any, Str, Bool, Int'} \<longrightarrow>
      validate env (Attribute c f its ats) v = raise_if (should_be (name f) (validators f) v))
   \<and> (c \<in> {Dir, File} \<and> truthy v \<and> path_exists env v = Some False \<longrightarrow>
      validate env (Attribute c f its ats) v
        = Inl (ValidationErrorsExc [Error (name f) ''This path does not exist.'' ENOENT]))
   \<and> (truthy v \<and> path_exists env v = Some True \<and> \<not> path_isdir env v \<longrightarrow>
      validate env (Attribute Dir f its ats) v
        = Inl (ValidationErrorsExc [Error (name f) ''This path is not a directory.'' ENOTDIR]))
   \<and> (truthy v \<and> path_exists env v = Some True \<and> \<not> path_isfile env v \<longrightarrow>
      validate env (Attribute File f its ats) v
        = Inl (ValidationErrorsExc [Error (name f) ''This path is not a file.'' EISDIR]))
   \<and> (\<not> truthy v \<or> (path_exists env v = Some True \<and> path_isdir env v) \<longrightarrow>
      validate env (Attribute Dir f its ats) v = raise_if (should_be (name f) (validators f) v))
   \<and> (\<not> truthy v \<or> (path_exists env v = Some True \<and> path_isfile env v) \<longrightarrow>
      validate env (Attribute File f its ats) v = raise_if (should_be (name f) (validators f) v))
   \<and> (py_iter v = Some xs \<and> (\<forall>x \<in> set xs. \<forall>a \<in> set its. at_most_verrors (validate env a x)) \<longrightarrow>
      validate env (Attribute List f its ats) v
        = raise_if (concat (map (\<lambda>(j, x).
            concat (map (\<lambda>a. prefixed (name f @ ''.'' @ str_nat j) (verrors_of (validate env a x))) its))
            (enumerate 0 xs))))
   \<and> ((\<forall>(k, a) \<in> set ats. \<forall>x. map_of kvs (name (fields a)) = Some x
          \<longrightarrow> at_most_verrors (validate env a x)) \<longrightarrow>
      validate env (Attribute Dict f its ats) (PDict kvs)
        = raise_if (concat (map (\<lambda>(k, a).
            case map_of kvs (name (fields a)) of
              None \<Rightarrow> []
            | Some x \<Rightarrow> prefixed (name f) (verrors_of (validate env a x))) ats)))"
proof (intro conjI impI)
  assume "c \<in> {Any, Str, Bool, Int'}"
  then show "validate env (Attribute c f its ats) v = raise_if (should_be (name f) (validators f) v)"
    by (auto simp: Attribute_validate_eq)
next
  assume "c \<in> {Dir, File} \<and> truthy v \<and> path_exists env v = Some False"
  then show "validate env (Attribute c f its ats) v
      = Inl (ValidationErrorsExc [Error (name f) ''This path does not exist.'' ENOENT])"
    by (auto simp: Dir_validate_eq File_validate_eq)
next
  assume "truthy v \<and> path_exists env v = Some True \<and> \<not> path_isdir env v"
  then show "validate env (Attribute Dir f its ats) v
      = Inl (ValidationErrorsExc [Error (name f) ''This path is not a directory.'' ENOTDIR])"
    by (simp add: Dir_validate_eq)
next
  assume "truthy v \<and> path_exists env v = Some True \<and> \<not> path_isfile env v"
  then show "validate env (Attribute File f its ats) v
      = Inl (ValidationErrorsExc [Error (name f) ''This path is not a file.'' EISDIR])"
    by (simp add: File_validate_eq)
next
  assume "\<not> truthy v \<or> (path_exists env v = Some True \<and> path_isdir env v)"
  then show "validate env (Attribute Dir f its ats) v = raise_if (should_be (name f) (validators f) v)"
    by (auto simp: Dir_validate_eq)
next
  assume "\<not> truthy v \<or> (path_exists env v = Some True \<and> path_isfile env v)"
  then show "validate env (Attribute File f its ats) v = raise_if (should_be (name f) (validators f) v)"
    by (auto simp: File_validate_eq)
next
  assume "py_iter v = Some xs \<and> (\<forall>x \<in> set xs. \<forall>a \<in> set its. at_most_verrors (validate env a x))"
  then have it: "py_iter v = Some xs"
    and ok: "\<forall>x \<in> set xs. \<forall>a \<in> set its. at_most_verrors (validate env a x)" by simp_all
  show "validate env (Attribute List f its ats) v
        = raise_if (concat (map (\<lambda>(j, x).
            concat (map (\<lambda>a. prefixed (name f @ ''.'' @ str_nat j) (verrors_of (validate env a x))) its))
            (enumerate 0 xs)))"
    by (simp add: it List_validate_loop_eq [OF ok])
next
  assume ok: "\<forall>(k, a) \<in> set ats. \<forall>x. map_of kvs (name (fields a)) = Some x
          \<longrightarrow> at_most_verrors (validate env a x)"
  show "validate env (Attribute Dict f its ats) (PDict kvs)
        = raise_if (concat (map (\<lambda>(k, a).
            case map_of kvs (name (fields a)) of
              None \<Rightarrow> []
            | Some x \<Rightarrow> prefixed (name f) (verrors_of (validate env a x))) ats))"
    by (simp add: Dict_validate_loop_eq [OF ok])
qed

theorem validate_aggregates_witness:
  "Str \<in> {Any, Str, Bool, Int'}
   \<and> validate env0 (kw_validators [\<lambda>v. Some ''short'', \<lambda>v. None, \<lambda>v. Some ''lower case'']
                     (new Str ''s'')) (PStr ''LONG'')
      = Inl (ValidationErrorsExc [Error ''s'' ''Should be short'' EINVAL,
                                   Error ''s'' ''Should be lower case'' EINVAL])
   \<and> Dir \<in> {Dir, File} \<and> truthy (PStr ''/nope'') \<and> path_exists env0 (PStr ''/nope'') = Some False
   \<and> validate env0 (new Dir ''p'') (PStr ''/nope'')
      = Inl (ValidationErrorsExc [Error ''p'' ''This path does not exist.'' ENOENT])
   \<and> validate env0 (List_init ''l'' [kw_validators [\<lambda>v. if v = PInt 0 then Some ''positive'' else None]
                                        (new Int' ''i'')]) (PList [PInt 0, PInt 1, PInt 0])
      = Inl (ValidationErrorsExc [Error ''l.0.i'' ''Should be positive'' EINVAL,
                                   Error ''l.2.i'' ''Should be positive'' EINVAL])"
proof -
  let ?vs = "[\<lambda>v. Some ''short'', \<lambda>v. None, \<lambda>v. Some ''lower case'']"
  let ?sf = "(Attribute_init ''s'')\<lparr>validators := ?vs\<rparr>"
  let ?i = "Attribute Int' ((Attribute_init ''i'')\<lparr>validators :=
      [\<lambda>v. if v = PInt 0 then Some ''positive'' else None]\<rparr>) [] []"
  let ?lf = "(Attribute_init ''l'')\<lparr>has_default := True, default := PList []\<rparr>"
  let ?xs = "[PInt 0, PInt 1, PInt 0]"
  have eval: "validate env0 ?i (PInt 0) = Inl (ValidationErrorsExc [Error ''i'' ''Should be positive'' EINVAL])"
    "validate env0 ?i (PInt 1) = Inr ()"
    by (simp_all add: Attribute_validate_eq should_be_def raise_if_def List.map_filter_simps
        Attribute_init_def)
  have ok: "\<forall>x \<in> set ?xs. \<forall>a \<in> set [?i]. at_most_verrors (validate env0 a x)"
    by (simp add: eval del: validate.simps)
  have it: "py_iter (PList ?xs) = Some ?xs" by simp
  have nm: "name ?lf = ''l''" by (simp add: Attribute_init_def)
  from validate_aggregates [of List env0 ?lf "[?i]" "[]" "PList ?xs" ?xs "[]"] ok it
  have "validate env0 (Attribute List ?lf [?i] []) (PList ?xs)
      = raise_if (concat (map (\<lambda>(j, x).
            concat (map (\<lambda>a. prefixed (name ?lf @ ''.'' @ str_nat j) (verrors_of (validate env0 a x))) [?i]))
            (enumerate 0 ?xs)))"
    by blast
  then have l: "validate env0 (Attribute List ?lf [?i] []) (PList ?xs)
      = Inl (ValidationErrorsExc [Error ''l.0.i'' ''Should be positive'' EINVAL,
                                   Error ''l.2.i'' ''Should be positive'' EINVAL])"
    by (simp add: eval nm raise_if_def prefixed_def str_nat.simps digit_char_def
        del: validate.simps)
  from validate_aggregates [of Str env0 ?sf "[]" "[]" "PStr ''LONG''"]
  have "validate env0 (Attribute Str ?sf [] []) (PStr ''LONG'') = raise_if (should_be (name ?sf) (validators ?sf) (PStr ''LONG''))"
    by blast
  then have s: "validate env0 (Attribute Str ?sf [] []) (PStr ''LONG'')
      = Inl (ValidationErrorsExc [Error ''s'' ''Should be short'' EINVAL,
                                   Error ''s'' ''Should be lower case'' EINVAL])"
    by (simp add: should_be_def raise_if_def List.map_filter_simps Attribute_init_def)
  have p: "truthy (PStr ''/nope'')" "path_exists env0 (PStr ''/nope'') = Some False"
    by (simp_all add: env0_def)
  from validate_aggregates [of Dir env0 "Attribute_init ''p''" "[]" "[]" "PStr ''/nope''"] p
  have "validate env0 (Attribute Dir (Attribute_init ''p'') [] []) (PStr ''/nope'')
      = Inl (ValidationErrorsExc [Error (name (Attribute_init ''p'')) ''This path does not exist.'' ENOENT])"
    by blast
  then have d: "validate env0 (Attribute Dir (Attribute_init ''p'') [] []) (PStr ''/nope'')
      = Inl (ValidationErrorsExc [Error ''p'' ''This path does not exist.'' ENOENT])"
    by (simp add: Attribute_init_def)
  from l s d p show ?thesis
    unfolding new_def kw_validators_def List_init_def upd.simps by simp
qed

text \<open>What \<open>IPAddr.validate\<close> raises on a value that does not parse.\<close>

lemma IPAddr_validate_raises_Error:
  "truthy v \<Longrightarrow> \<not> ip_address_ok env v \<Longrightarrow>
   validate env (Attribute IPAddr f its ats) v
     = Inl (ErrorExc (Error (name f) (''Not a valid IP Address: '' @ py_str v) EINVAL))"
  by (simp add: IPAddr_validate_def)

subsection \<open>The wrapper of accepts\<close>

lemma step_verrors:
  assumes "at_most_verrors r"
  shows "(case r of Inr _ \<Rightarrow> Inr verrors
          | Inl (ValidationErrorsExc e) \<Rightarrow> Inr (extend verrors e)
          | Inl other \<Rightarrow> Inl other) = (Inr (verrors @ verrors_of r) :: exc + ValidationErrors)"
proof (cases r)
  case (Inl e)
  with assms show ?thesis by (cases e) (simp_all add: extend_def)
next
  case (Inr u)
  then show ?thesis by simp
qed

lemma positional_loop_cleaned:
  "i + length vals \<le> length acc \<Longrightarrow>
   \<forall>ch \<in> set (zip (drop i acc) vals). check_ok env ch \<Longrightarrow>
   positional_loop env acc i vals verrors
     = Inr (map cleaned (zip (drop i acc) vals),
            verrors @ concat (map (violations env) (zip (drop i acc) vals)))"
proof (induction vals arbitrary: i verrors)
  case Nil
  show ?case by simp
next
  case (Cons a vals)
  from Cons.prems have i: "i < length acc" and len: "Suc i + length vals \<le> length acc" by simp_all
  from i have dr: "drop i acc = acc ! i # drop (Suc i) acc" by (simp add: Cons_nth_drop_Suc)
  from Cons.prems(2) have hd: "check_ok env (acc ! i, a)"
    and tl: "\<forall>ch \<in> set (zip (drop (Suc i) acc) vals). check_ok env ch"
    by (simp_all add: dr)
  from hd obtain c where c: "clean (acc ! i) a = Inr c" and ok: "at_most_verrors (validate env (acc ! i) c)"
    by (auto simp: check_ok_def)
  have v: "violations env (acc ! i, a) = verrors_of (validate env (acc ! i) c)"
    by (simp add: violations_def c)
  have cl: "cleaned (acc ! i, a) = c" by (simp add: cleaned_def c)
  from Cons.IH [OF len tl, of "verrors @ verrors_of (validate env (acc ! i) c)"] i c v cl show ?case
    by (simp add: step_verrors [OF ok] dr del: clean.simps validate.simps)
qed

lemma keyword_loop_cleaned:
  assumes ai: "args_index f = 1" and n: "n \<le> length (co_varnames f)"
    and na: "n \<le> Suc (length acc)" and dist: "distinct (co_varnames f)"
  shows "xs = [Suc i ..< n] \<Longrightarrow>
   \<forall>x \<in> set xs. map_of kwargs (co_varnames f ! x) = map_of kwargs0 (co_varnames f ! x) \<Longrightarrow>
   \<forall>x \<in> set xs. check_ok env (acc ! (x - 1), kwval f kwargs0 x) \<Longrightarrow>
   keyword_loop env f acc xs i kwargs verrors
     = Inr (foldl (\<lambda>kw x. dict_set kw (co_varnames f ! x) (cleaned (acc ! (x - 1), kwval f kwargs0 x)))
              kwargs xs,
            verrors @ concat (map (\<lambda>x. violations env (acc ! (x - 1), kwval f kwargs0 x)) xs))"
proof (induction xs arbitrary: i kwargs verrors)
  case Nil
  show ?case by simp
next
  case (Cons x xs)
  from Cons.prems(1) [symmetric] have x: "x = Suc i" and xs: "xs = [Suc (Suc i) ..< n]"
    and xn: "x < n"
    by (auto simp: upt_eq_Cons_conv)
  from xn na have il: "i < length acc" by (simp add: x)
  from xn n have xl: "x < length (co_varnames f)" by simp
  have later: "co_varnames f ! y \<noteq> co_varnames f ! x" if "y \<in> set xs" for y
  proof -
    from that xs n have "y < length (co_varnames f)" "y \<noteq> x" by (auto simp: x)
    with dist xl show ?thesis by (simp add: nth_eq_iff_index_eq)
  qed
  have agree': "\<forall>y \<in> set xs. map_of (dict_set kwargs (co_varnames f ! x) c) (co_varnames f ! y)
      = map_of kwargs0 (co_varnames f ! y)" for c
    using Cons.prems(2) later by (simp add: map_of_dict_set)
  from Cons.prems(2) have here: "map_of kwargs (co_varnames f ! Suc i) = map_of kwargs0 (co_varnames f ! Suc i)"
    by (simp add: x)
  from Cons.prems(3) have ok: "check_ok env (acc ! i, kwval f kwargs0 (Suc i))"
    and oks: "\<forall>y \<in> set xs. check_ok env (acc ! (y - 1), kwval f kwargs0 y)"
    by (simp_all add: x)
  from ok obtain c where c: "clean (acc ! i) (kwval f kwargs0 (Suc i)) = Inr c"
    and okv: "at_most_verrors (validate env (acc ! i) c)"
    by (auto simp: check_ok_def)
  have viol: "violations env (acc ! i, kwval f kwargs0 (Suc i)) = verrors_of (validate env (acc ! i) c)"
    by (simp add: violations_def c)
  have cl: "cleaned (acc ! i, kwval f kwargs0 (Suc i)) = c" by (simp add: cleaned_def c)
  have bound: "(case map_of kwargs (co_varnames f ! Suc i) of
                  Some value \<Rightarrow>
                    if \<not> i < length acc then Inl IndexError else Inr (Some (acc ! i, value))
                | None \<Rightarrow>
                    if length acc \<ge> i + args_index f
                    then (if \<not> i < length acc then Inl IndexError
                          else Inr (Some (acc ! i, PNone)))
                    else Inr None)
      = (Inr (Some (acc ! i, kwval f kwargs0 (Suc i))) :: exc + (attribute \<times> pyval) option)"
    using il by (auto simp: here ai kwval_def split: option.splits)
  from Cons.IH [OF xs agree' oks, of c "verrors @ verrors_of (validate env (acc ! i) c)"]
    xl c viol cl
  show ?case
    by (simp add: x bound step_verrors [OF okv] Let_def del: clean.simps validate.simps)
qed


lemma params_positional:
  assumes "length args - 1 \<le> length acc" and "args_index f = 1"
  shows "take (length args - 1) (params f acc args kwargs) = zip acc (drop 1 args)"
proof (rule nth_equalityI)
  from assms show "length (take (length args - 1) (params f acc args kwargs)) = length (zip acc (drop 1 args))"
    by (simp add: params_def)
next
  fix j assume "j < length (take (length args - 1) (params f acc args kwargs))"
  with assms have j: "j < length args - 1" "j < length acc" by (simp_all add: params_def)
  then have "Suc j < length args" by arith
  with j show "take (length args - 1) (params f acc args kwargs) ! j = zip acc (drop 1 args) ! j"
    using assms by (simp add: params_def bound_value_def)
qed

lemma params_keyword:
  assumes "args_index f = 1" and "1 \<le> length args"
  shows "drop (length args - 1) (params f acc args kwargs)
     = map (\<lambda>x. (acc ! (x - 1), kwval f kwargs x)) [Suc (length args - 1) ..< Suc (length acc)]"
proof -
  have "drop (length args - 1) (params f acc args kwargs)
      = map (\<lambda>j. (acc ! j, bound_value f args kwargs (Suc j))) [length args - 1 ..< length acc]"
    by (simp add: params_def drop_map assms(1))
  also have "\<dots> = map (\<lambda>j. (acc ! j, kwval f kwargs (Suc j))) [length args - 1 ..< length acc]"
    using assms(2) by (intro map_cong) (auto simp: bound_value_def kwval_def)
  also have "\<dots> = map (\<lambda>x. (acc ! (x - 1), kwval f kwargs x)) (map Suc [length args - 1 ..< length acc])"
    by (simp add: comp_def)
  finally show ?thesis by (simp only: map_Suc_upt)
qed

lemma clean_and_validate_args_params:
  assumes ai: "args_index f = 1" and wf: "wf_call f acc args"
    and ok: "\<forall>ch \<in> set (params f acc args kwargs). check_ok env ch"
  shows "clean_and_validate_args env f acc args kwargs =
     (if concat (map (violations env) (params f acc args kwargs)) \<noteq> []
      then Inl (ValidationErrorsExc (concat (map (violations env) (params f acc args kwargs))))
      else Inr (take 1 args @ map cleaned (take (length args - 1) (params f acc args kwargs)),
                foldl (\<lambda>kw j. dict_set kw (co_varnames f ! Suc j) (cleaned (params f acc args kwargs ! j)))
                  kwargs [length args - 1 ..< length acc]))"
proof -
  let ?P = "params f acc args kwargs"
  let ?p = "length args - 1"
  let ?kb = "\<lambda>x. (acc ! (x - 1), kwval f kwargs x)"
  from wf ai have n: "co_argcount f = Suc (length acc)" and a1: "1 \<le> length args"
    and p: "?p \<le> length acc" and vn: "co_argcount f \<le> length (co_varnames f)"
    and dist: "distinct (co_varnames f)"
    by (auto simp: wf_call_def accepts_assert_def)
  have tk: "take ?p ?P = zip acc (drop 1 args)" using p ai by (rule params_positional)
  have dr: "drop ?p ?P = map ?kb [Suc ?p ..< Suc (length acc)]" using ai a1 by (rule params_keyword)
  have split: "?P = zip acc (drop 1 args) @ map ?kb [Suc ?p ..< Suc (length acc)]"
    using append_take_drop_id [of ?p ?P] by (simp only: tk dr)
  from ok have okp: "\<forall>ch \<in> set (zip (drop 0 acc) (drop 1 args)). check_ok env ch"
    and okk: "\<forall>x \<in> set [Suc ?p ..< co_argcount f]. check_ok env (?kb x)"
    by (subst (asm) split, simp add: n del: upt_Suc)+
  from p have p0: "0 + length (drop 1 args) \<le> length acc" by simp
  have pos: "positional_loop env acc 0 (drop (args_index f) args) []
       = Inr (map cleaned (take ?p ?P), concat (map (violations env) (take ?p ?P)))"
    using positional_loop_cleaned [OF p0 okp, of "[]"] tk by (simp add: ai)
  have n': "co_argcount f \<le> Suc (length acc)" by (simp add: n)
  have kw: "keyword_loop env f acc [Suc ?p ..< co_argcount f] ?p kwargs (concat (map (violations env) (take ?p ?P)))
     = Inr (foldl (\<lambda>kw x. dict_set kw (co_varnames f ! x) (cleaned (?kb x))) kwargs [Suc ?p ..< co_argcount f],
            concat (map (violations env) (take ?p ?P)) @ concat (map (\<lambda>x. violations env (?kb x)) [Suc ?p ..< co_argcount f]))"
    by (rule keyword_loop_cleaned [OF ai vn n' dist refl _ okk]) simp
  have viol: "concat (map (violations env) (take ?p ?P)) @ concat (map (\<lambda>x. violations env (?kb x)) [Suc ?p ..< co_argcount f])
      = concat (map (violations env) ?P)"
  proof -
    have "concat (map (violations env) ?P)
        = concat (map (violations env) (take ?p ?P)) @ concat (map (violations env) (drop ?p ?P))"
      by (metis append_take_drop_id concat_append map_append)
    then show ?thesis by (simp only: dr n map_map comp_def)
  qed
  have fold: "foldl (\<lambda>kw x. dict_set kw (co_varnames f ! x) (cleaned (?kb x))) kwargs [Suc ?p ..< co_argcount f]
      = foldl (\<lambda>kw j. dict_set kw (co_varnames f ! Suc j) (cleaned (?P ! j))) kwargs [?p ..< length acc]"
  proof -
    have "[Suc ?p ..< co_argcount f] = map Suc [?p ..< length acc]"
      by (simp only: n map_Suc_upt)
    moreover have "foldl (\<lambda>kw j. dict_set kw (co_varnames f ! Suc j) (cleaned (?kb (Suc j)))) kwargs [?p ..< length acc]
        = foldl (\<lambda>kw j. dict_set kw (co_varnames f ! Suc j) (cleaned (?P ! j))) kwargs [?p ..< length acc]"
      using a1 by (intro foldl_cong refl) (auto simp: params_def ai bound_value_def kwval_def)
    ultimately show ?thesis by (simp only: foldl_map)
  qed
  have len: "length (map cleaned (take ?p ?P)) = ?p" using p by (simp add: params_def)
  show ?thesis
    unfolding clean_and_validate_args_def pos
    by (simp only: sum.case prod.case Let_def len add_Suc_right add_0_right kw viol fold ai
        Suc_eq_plus1 [symmetric])
qed


lemmas eval_call = eval_defs clean_and_validate_args_def args_index_def Attribute_validate_def
  raise_if_def add_def extend_def add_child_def upt_rec

text \<open>
  C4 as stated fails: with a violation collected for \<open>x\<close>, the \<open>Error\<close> that cleaning \<open>y\<close>
  raises leaves the wrapper as it is, and no \<open>ValidationErrors\<close> is raised.
\<close>

theorem nf_raises_Error_counterexample:
  "validate env0 (kw_validators [\<lambda>v. Some ''positive''] (new Int' ''x'')) (PInt 5)
     = Inl (ValidationErrorsExc [Error ''x'' ''Should be positive'' EINVAL])
   \<and> nf env0 (Callable 3 [''self'', ''x'', ''y''] False False)
      [kw_validators [\<lambda>v. Some ''positive''] (new Int' ''x''), new Int' ''y'']
      handler [PStr ''self'', PInt 5, PStr ''bad''] [] 0
    = (Inl (ErrorExc (Error ''y'' ''Not an integer'' EINVAL)), 0)"
  by (simp add: nf_def eval_call)

text \<open>
  C4, amended. Whatever \<open>clean_and_validate_args\<close> raises, the wrapper raises it and the
  underlying callable is not invoked (the state its body would change is untouched).
  For a callable with no injected context parameter (\<open>args_index\<close> is 1) and a
  well-formed call in which every parameter of the schema cleans and every \<open>validate\<close>
  raises nothing but \<open>ValidationErrors\<close>: if at least one violation is collected, the
  wrapper raises the \<open>ValidationErrors\<close> holding the violations of all parameters, in
  parameter order, and the callable is not invoked; if none is, the callable is invoked
  with the positional arguments replaced by their cleaned values and the cleaned value
  of every other parameter stored in the keyword arguments under its name.
\<close>

theorem nf_rejects_invalid_arguments:
  "(clean_and_validate_args env f acc args kwargs = Inl e \<longrightarrow>
      nf env f acc body args kwargs s = (Inl e, s))
   \<and> (args_index f = 1 \<and> wf_call f acc args
       \<and> (\<forall>ch \<in> set (params f acc args kwargs). check_ok env ch)
       \<and> concat (map (violations env) (params f acc args kwargs)) \<noteq> [] \<longrightarrow>
      nf env f acc body args kwargs s
        = (Inl (ValidationErrorsExc (concat (map (violations env) (params f acc args kwargs)))), s))
   \<and> (args_index f = 1 \<and> wf_call f acc args
       \<and> (\<forall>ch \<in> set (params f acc args kwargs). check_ok env ch)
       \<and> concat (map (violations env) (params f acc args kwargs)) = [] \<longrightarrow>
      nf env f acc body args kwargs s
        = body (take 1 args @ map cleaned (take (length args - 1) (params f acc args kwargs)))
            (foldl (\<lambda>kw j. dict_set kw (co_varnames f ! Suc j) (cleaned (params f acc args kwargs ! j)))
               kwargs [length args - 1 ..< length acc])
            s)"
proof (intro conjI impI)
  assume "clean_and_validate_args env f acc args kwargs = Inl e"
  then show "nf env f acc body args kwargs s = (Inl e, s)"
    by (simp add: nf_def)
next
  assume a: "args_index f = 1 \<and> wf_call f acc args
       \<and> (\<forall>ch \<in> set (params f acc args kwargs). check_ok env ch)
       \<and> concat (map (violations env) (params f acc args kwargs)) \<noteq> []"
  then have "clean_and_validate_args env f acc args kwargs
      = Inl (ValidationErrorsExc (concat (map (violations env) (params f acc args kwargs))))"
    by (simp add: clean_and_validate_args_params)
  then show "nf env f acc body args kwargs s
        = (Inl (ValidationErrorsExc (concat (map (violations env) (params f acc args kwargs)))), s)"
    by (simp add: nf_def)
next
  assume a: "args_index f = 1 \<and> wf_call f acc args
       \<and> (\<forall>ch \<in> set (params f acc args kwargs). check_ok env ch)
       \<and> concat (map (violations env) (params f acc args kwargs)) = []"
  then have "clean_and_validate_args env f acc args kwargs
      = Inr (take 1 args @ map cleaned (take (length args - 1) (params f acc args kwargs)),
             foldl (\<lambda>kw j. dict_set kw (co_varnames f ! Suc j) (cleaned (params f acc args kwargs ! j)))
               kwargs [length args - 1 ..< length acc])"
    by (simp add: clean_and_validate_args_params)
  then show "nf env f acc body args kwargs s
        = body (take 1 args @ map cleaned (take (length args - 1) (params f acc args kwargs)))
            (foldl (\<lambda>kw j. dict_set kw (co_varnames f ! Suc j) (cleaned (params f acc args kwargs ! j)))
               kwargs [length args - 1 ..< length acc])
            s"
    by (simp add: nf_def)
qed

theorem nf_rejects_invalid_arguments_witness:
  "nf env0 (Callable 3 [''self'', ''x'', ''y''] False False)
      [kw_required True (new Int' ''x''), kw_validators [\<lambda>v. Some ''good''] (new Str ''y'')]
      echo [PStr ''self'', PInt 5, PStr ''bad''] [] 0
    = (Inl (ValidationErrorsExc [Error ''y'' ''Should be good'' EINVAL]), 0)
   \<and> nf env0 (Callable 3 [''self'', ''x'', ''y''] False False)
      [kw_required True (new Int' ''x''), kw_default (PStr ''z'') (new Str ''y'')]
      echo [PStr ''self'', PStr ''5''] [] 0
    = (Inr (PTuple [PList [PStr ''self'', PInt 5], PDict [(''y'', PStr ''z'')]]), 1)"
proof -
  let ?f = "Callable 3 [''self'', ''x'', ''y''] False False"
  let ?acc = "[kw_required True (new Int' ''x''), kw_validators [\<lambda>v. Some ''good''] (new Str ''y'')]"
  let ?args = "[PStr ''self'', PInt 5, PStr ''bad'']"
  let ?acc2 = "[kw_required True (new Int' ''x''), kw_default (PStr ''z'') (new Str ''y'')]"
  let ?args2 = "[PStr ''self'', PStr ''5'']"
  have ai: "args_index ?f = 1" by (simp add: args_index_def)
  have wf: "wf_call ?f ?acc ?args" "wf_call ?f ?acc2 ?args2"
    by (simp_all add: wf_call_def args_index_def accepts_assert_def)
  have ch: "params ?f ?acc ?args [] = [(?acc ! 0, PInt 5), (?acc ! 1, PStr ''bad'')]"
    by (simp add: params_def bound_value_def args_index_def upt_rec)
  have ok: "\<forall>ch \<in> set (params ?f ?acc ?args []). check_ok env0 ch"
    unfolding ch by (simp add: check_ok_def eval_call)
  have v: "concat (map (violations env0) (params ?f ?acc ?args []))
      = [Error ''y'' ''Should be good'' EINVAL]"
    unfolding ch by (simp add: violations_def eval_call)
  have ch2: "params ?f ?acc2 ?args2 [] = [(?acc2 ! 0, PStr ''5''), (?acc2 ! 1, PNone)]"
    by (simp add: params_def bound_value_def args_index_def upt_rec)
  have ok2: "\<forall>ch \<in> set (params ?f ?acc2 ?args2 []). check_ok env0 ch"
    unfolding ch2 by (simp add: check_ok_def eval_call)
  have v2: "concat (map (violations env0) (params ?f ?acc2 ?args2 [])) = []"
    unfolding ch2 by (simp add: violations_def eval_call)
  have c2: "map cleaned (take (length ?args2 - 1) (params ?f ?acc2 ?args2 [])) = [PInt 5]"
    "cleaned (params ?f ?acc2 ?args2 [] ! 1) = PStr ''z''"
    unfolding ch2 by (simp_all add: cleaned_def eval_call)
  from nf_rejects_invalid_arguments [of env0 ?f ?acc ?args "[]" _ echo 0] ai wf ok v
  have one: "nf env0 ?f ?acc echo ?args [] 0
      = (Inl (ValidationErrorsExc [Error ''y'' ''Should be good'' EINVAL]), 0)"
    by (simp del: clean.simps validate.simps)
  from nf_rejects_invalid_arguments [of env0 ?f ?acc2 ?args2 "[]" _ echo 0] ai wf ok2 v2
  have "nf env0 ?f ?acc2 echo ?args2 [] 0
      = echo (take 1 ?args2 @ map cleaned (take (length ?args2 - 1) (params ?f ?acc2 ?args2 [])))
          (foldl (\<lambda>kw j. dict_set kw (co_varnames ?f ! Suc j) (cleaned (params ?f ?acc2 ?args2 [] ! j)))
             [] [length ?args2 - 1 ..< length ?acc2]) 0"
    by (simp del: clean.simps validate.simps)
  also have "\<dots> = (Inr (PTuple [PList [PStr ''self'', PInt 5], PDict [(''y'', PStr ''z'')]]), 1)"
    using c2 by (simp add: echo_def upt_rec del: clean.simps validate.simps)
  finally show ?thesis using one by simp
qed

text \<open>
  C6. The claim: a declared parameter that is not supplied positionally is bound to the
  next unconsumed attribute, through which a keyword argument is cleaned and a missing
  one is synthesized. For a method without injected context this is what happens:
  \<open>[Int('x', required=True), Str('y', default='z')]\<close> called with \<open>(5,)\<close> gives the
  handler \<open>x = 5\<close> and \<open>y = 'z'\<close>. The second loop starts at \<open>i + 1\<close> whatever \<open>args_index\<close>
  is, so for \<open>f(self, app, x, y)\<close> with \<open>_pass_app\<close> and the same attributes the call
  \<open>(app, 5)\<close> leaves \<open>y\<close> out (no default is applied), and the call \<open>(app, 5, y='q')\<close>
  raises \<open>IndexError\<close>.
\<close>

theorem clean_and_validate_args_injected_context:
  "clean_and_validate_args env0 (Callable 3 [''self'', ''x'', ''y''] False False)
      [kw_required True (new Int' ''x''), kw_default (PStr ''z'') (new Str ''y'')]
      [PStr ''self'', PInt 5] []
     = Inr ([PStr ''self'', PInt 5], [(''y'', PStr ''z'')])
   \<and> accepts_assert [kw_required True (new Int' ''x''), kw_default (PStr ''z'') (new Str ''y'')]
        (Callable 4 [''self'', ''app'', ''x'', ''y''] True False)
   \<and> clean_and_validate_args env0 (Callable 4 [''self'', ''app'', ''x'', ''y''] True False)
      [kw_required True (new Int' ''x''), kw_default (PStr ''z'') (new Str ''y'')]
      [PStr ''self'', PStr ''app'', PInt 5] []
     = Inr ([PStr ''self'', PStr ''app'', PInt 5], [])
   \<and> clean_and_validate_args env0 (Callable 4 [''self'', ''app'', ''x'', ''y''] True False)
      [kw_required True (new Int' ''x''), kw_default (PStr ''z'') (new Str ''y'')]
      [PStr ''self'', PStr ''app'', PInt 5] [(''y'', PStr ''q'')]
     = Inl IndexError"
  by (simp add: eval_call accepts_assert_def)

end
